(* ===== verification/BM_Prelude.thy ===== *)
theory BM_Prelude
  imports Main "HOL-Library.Word"
begin

text \<open>
  Shared vocabulary of the development: bytes and pages, the return codes of
  \<^verbatim>\<open>dberror.h\<close> (a header that is not part of the sources, modelled from the
  specification), the ring of page frames and the walk a \<^verbatim>\<open>do ... while\<close>
  loop makes over it, and the generic list and arithmetic facts the component
  theories share.
\<close>

named_theorems ring_simps "index arithmetic on the ring of frames"
named_theorems pool_simps "record and list facts the pool proofs rewrite with"

section \<open>Bytes, pages, return codes\<close>

type_synonym byte = "8 word"
type_synonym page = "byte list"

text \<open>Return codes used by the sources (\<^verbatim>\<open>RC\<close> of \<^verbatim>\<open>dberror.h\<close>).\<close>

datatype RC =
    RC_OK
  | RC_FILE_NOT_FOUND
  | RC_WRITE_FAILED
  | RC_READ_NON_EXISTING_PAGE
  | RC_IM_KEY_NOT_FOUND
  | RC_IM_KEY_ALREADY_EXISTS
  | RC_IM_NO_MORE_ENTRIES
  | RC_RM_NO_PRINT_FOR_DATATYPE
  | RC_RM_NO_MORE_TUPLES
  | RC_RM_UPDATE_NOT_POSSIBLE_ON_DELETED_RECORD
  | RC_RM_NO_DESERIALIZER_FOR_THIS_DATATYPE
  | RC_TABLE_ALREADY_EXISTS

section \<open>The ring of frames\<close>

text \<open>
  The frames of a pool form a circular doubly linked list built by
  \<^verbatim>\<open>createPageFrame\<close>: frame \<open>i\<close> is the \<open>i\<close>-th frame created, its
  \<^verbatim>\<open>next\<close> is frame \<open>(i + 1) mod n\<close> and its \<^verbatim>\<open>prev\<close> frame
  \<open>(i + n - 1) mod n\<close>.
\<close>

definition nxt :: "nat \<Rightarrow> nat \<Rightarrow> nat" where
  "nxt n i = Suc i mod n"

definition prv :: "nat \<Rightarrow> nat \<Rightarrow> nat" where
  "prv n i = (i + n - 1) mod n"

text \<open>
  A loop \<^verbatim>\<open>do { body(frame); frame = frame->next; } while (frame != stop)\<close>
  started at \<open>start\<close> runs its body on the frames \<open>start, start + 1, \<dots>\<close>
  (modulo \<open>n\<close>) until the pointer comes back to \<open>stop\<close>: \<open>n\<close> frames when
  \<open>start = stop\<close>, otherwise the frames strictly before \<open>stop\<close>.
\<close>

definition walk_len :: "nat \<Rightarrow> nat \<Rightarrow> nat \<Rightarrow> nat" where
  "walk_len n start stop = (if start = stop then n else (stop + n - start) mod n)"

definition ring_walk :: "nat \<Rightarrow> nat \<Rightarrow> nat \<Rightarrow> nat list" where
  "ring_walk n start stop = map (\<lambda>j. (start + j) mod n) [0..<walk_len n start stop]"

subsection \<open>Ring arithmetic\<close>

lemma nxt_lt [ring_simps]: "0 < n \<Longrightarrow> nxt n i < n"
  by (simp add: nxt_def)

lemma prv_lt [ring_simps]: "0 < n \<Longrightarrow> prv n i < n"
  by (simp add: prv_def)

lemma prv_nxt [ring_simps]: "i < n \<Longrightarrow> prv n (nxt n i) = i"
proof (cases "Suc i = n")
  case True
  then show ?thesis by (simp add: prv_def nxt_def)
next
  case False
  moreover assume "i < n"
  ultimately have "Suc i < n" by simp
  then show ?thesis by (simp add: prv_def nxt_def)
qed

lemma nxt_eq_self_iff [ring_simps]:
  assumes "i < n"
  shows "nxt n i = i \<longleftrightarrow> n = 1"
proof (cases "Suc i = n")
  case True
  then show ?thesis by (auto simp: nxt_def)
next
  case False
  with assms have "Suc i < n" by simp
  then show ?thesis by (auto simp: nxt_def)
qed

lemma walk_len_le: "0 < n \<Longrightarrow> walk_len n start stop \<le> n"
  by (simp add: walk_len_def less_imp_le)

lemma walk_len_pos:
  assumes "0 < n" "start < n" "stop < n"
  shows "0 < walk_len n start stop"
proof (cases "start = stop")
  case True
  with assms show ?thesis by (simp add: walk_len_def)
next
  case False
  have "(stop + n - start) mod n \<noteq> 0"
  proof
    assume "(stop + n - start) mod n = 0"
    then obtain k where k: "stop + n - start = n * k" by (auto elim: dvdE simp: mod_eq_0_iff_dvd)
    have "0 < stop + n - start" "stop + n - start < 2 * n" using assms by linarith+
    with k have "k \<noteq> 0" by auto
    moreover from k \<open>stop + n - start < 2 * n\<close> have "n * k < n * 2" by (simp add: mult.commute)
    then have "k < 2" using assms(1) by simp
    ultimately have "k = 1" by linarith
    with k have "stop + n - start = n" by simp
    then have "stop = start" using assms by linarith
    with False show False by simp
  qed
  with False show ?thesis by (simp add: walk_len_def)
qed

lemma set_ring_walk: "set (ring_walk n start stop) = (\<lambda>j. (start + j) mod n) ` {0..<walk_len n start stop}"
  by (simp add: ring_walk_def)

lemma set_ring_walk_lt [ring_simps]: "0 < n \<Longrightarrow> i \<in> set (ring_walk n start stop) \<Longrightarrow> i < n"
  unfolding set_ring_walk by auto

lemma ring_walk_hd:
  assumes "0 < n" "start < n" "stop < n"
  shows "start \<in> set (ring_walk n start stop)"
proof -
  have "(start + 0) mod n \<in> (\<lambda>j. (start + j) mod n) ` {0..<walk_len n start stop}"
    using walk_len_pos [OF assms] by (intro imageI) simp
  with assms(2) show ?thesis by (simp add: set_ring_walk)
qed

lemma walk_len_end:
  assumes "0 < n" "start < n" "stop < n"
  shows "(start + walk_len n start stop) mod n = stop"
proof (cases "start = stop")
  case True
  with assms show ?thesis by (simp add: walk_len_def)
next
  case False
  have "(start + (stop + n - start) mod n) mod n = (start + (stop + n - start)) mod n"
    by (simp add: mod_add_right_eq)
  also have "start + (stop + n - start) = stop + n" using assms by simp
  finally show ?thesis using False assms by (simp add: walk_len_def)
qed

lemma walk_len_inner:
  assumes "0 < n" "start < n" "stop < n" "0 < j" "j < walk_len n start stop"
  shows "(start + j) mod n \<noteq> stop"
proof
  assume eq: "(start + j) mod n = stop"
  have jn: "j < n" using assms walk_len_le [of n start stop] by linarith
  have "(stop + n - start) mod n = j"
  proof (cases "start + j < n")
    case True
    with eq have "stop = start + j" by simp
    then have "stop + n - start = j + n" by simp
    then show ?thesis using jn by simp
  next
    case False
    with assms(2) jn have "start + j = (start + j - n) + n" "start + j - n < n" by linarith+
    with eq have "stop = start + j - n" by (metis mod_add_self2 mod_less)
    with False have "stop + n - start = j" by linarith
    then show ?thesis using jn by simp
  qed
  then show False
    using assms jn by (cases "start = stop") (auto simp: walk_len_def)
qed

lemma set_ring_walk_full [ring_simps]:
  assumes "start < n"
  shows "set (ring_walk n start start) = {..<n}"
proof
  show "set (ring_walk n start start) \<subseteq> {..<n}"
    using assms set_ring_walk_lt [of n _ start start] by auto
next
  show "{..<n} \<subseteq> set (ring_walk n start start)"
  proof
    fix i assume "i \<in> {..<n}"
    then have i: "i < n" by simp
    define j where "j = (i + n - start) mod n"
    have "j < n" using assms by (simp add: j_def)
    moreover have "(start + j) mod n = i"
    proof -
      have "(start + j) mod n = (start + (i + n - start)) mod n"
        by (simp add: j_def mod_add_right_eq)
      also have "start + (i + n - start) = i + n" using assms by simp
      finally show ?thesis using i by simp
    qed
    ultimately have "i \<in> (\<lambda>j. (start + j) mod n) ` {0..<n}" by force
    then show "i \<in> set (ring_walk n start start)"
      by (simp add: set_ring_walk walk_len_def)
  qed
qed

section \<open>Generic facts on lists\<close>

lemma find_Some_in_set [pool_simps]: "List.find P xs = Some x \<Longrightarrow> x \<in> set xs \<and> P x"
  by (auto simp: find_Some_iff)

lemma find_None_not [pool_simps]: "List.find P xs = None \<Longrightarrow> x \<in> set xs \<Longrightarrow> \<not> P x"
  by (auto simp: find_None_iff)

text \<open>One step of a \<open>replicate\<close> by a numeral, for evaluating concrete pages
  without unfolding all of them.\<close>

lemma replicate_numeral_Cons: "replicate (numeral k) x = x # replicate (pred_numeral k) x"
  by (simp add: numeral_eq_Suc)

lemma map_eq_nth: "map f xs = map f ys \<Longrightarrow> k < length ys \<Longrightarrow> f (xs ! k) = f (ys ! k)"
  by (metis length_map nth_map)

lemma nth_list_update_cases: "k < length xs \<Longrightarrow> xs[j := x] ! k = xs ! k \<or> xs[j := x] ! k = x"
  by (cases "j = k") simp_all

end
