(* ===== verification/Tables.thy ===== *)
theory Tables
  imports Complex_Main BM_Prelude
begin

text \<open>
  The types of \<^verbatim>\<open>tables.h\<close> that the index and record managers share (the
  header is not among the sources; its types are taken from their uses in
  \<^verbatim>\<open>src/btree_mgr.c\<close>, \<^verbatim>\<open>src/record_mgr.c\<close> and \<^verbatim>\<open>src/rm_deserializer.c\<close>),
  and the byte-level reads and writes of C memory they are stored with: a
  32-bit little-endian \<^verbatim>\<open>int\<close>, a \<^verbatim>\<open>memcpy\<close> into a buffer and the bytes
  a buffer holds at an offset.
\<close>

unbundle bit_operations_syntax

section \<open>Types\<close>

text \<open>The C union \<^verbatim>\<open>v\<close> of \<^verbatim>\<open>Value\<close> is modelled as separate fields, one per
  member: a write to one member leaves the others as they were (aliasing of
  the union's bytes is not modelled). \<^verbatim>\<open>stringV\<close> is a pointer, modelled by
  an address: the index manager compares it as one, the record manager reads
  the bytes at it. \<^verbatim>\<open>floatV\<close> is a real number (no NaN), \<^verbatim>\<open>boolV\<close>
  the truth value of the \<^verbatim>\<open>short\<close> that \<^verbatim>\<open>bool\<close> is.\<close>

datatype DataType = DT_INT | DT_STRING | DT_FLOAT | DT_BOOL

record Value =
  dt :: DataType
  intV :: int
  stringV :: nat
  floatV :: real
  boolV :: bool

record RID =
  page :: int
  slot :: int

text \<open>\<^verbatim>\<open>Schema\<close>: its arrays are lists, read by index.\<close>

record Schema =
  numAttr :: int
  attrNames :: "byte list list"
  dataTypes :: "DataType list"
  typeLength :: "int list"
  keyAttrs :: "int list"
  keySize :: int

text \<open>A buffer that \<^verbatim>\<open>char *data\<close> points to: byte \<open>k\<close> of it at offset
  \<open>k\<close>. A \<^verbatim>\<open>Record\<close>'s fields \<^verbatim>\<open>id\<close> and \<^verbatim>\<open>data\<close> are \<open>rec_id\<close> and
  \<open>rec_data\<close> (\<open>id\<close> is the identity of HOL).\<close>

type_synonym buf = "nat \<Rightarrow> byte"

record Record =
  rec_id :: RID
  rec_data :: buf

section \<open>Bytes in memory\<close>

text \<open>A C string literal, as the bytes of its characters.\<close>

abbreviation lit :: "string \<Rightarrow> byte list" where
  "lit s \<equiv> map of_char s"

text \<open>\<^verbatim>\<open>*((int*)p) = n\<close> and \<^verbatim>\<open>*((int*)p)\<close> on a little-endian machine
  with 32-bit \<^verbatim>\<open>int\<close>.\<close>

definition int_bytes :: "int \<Rightarrow> byte list" where
  "int_bytes n = (let w = (word_of_int n :: 32 word) in map (\<lambda>k. ucast (drop_bit (8 * k) w)) [0..<4])"

definition le_int32 :: "byte list \<Rightarrow> int" where
  "le_int32 bs = sint (foldr (\<lambda>b acc. ucast b OR push_bit 8 acc) (take 4 bs) (0 :: 32 word))"

text \<open>\<^verbatim>\<open>memcpy(b + off, bs, n)\<close> and the \<open>n\<close> bytes at \<^verbatim>\<open>b + off\<close>.\<close>

definition memcpyTo :: "buf \<Rightarrow> nat \<Rightarrow> byte list \<Rightarrow> buf" where
  "memcpyTo b off bs = (\<lambda>k. if off \<le> k \<and> k < off + length bs then bs ! (k - off) else b k)"

definition bytesAt :: "buf \<Rightarrow> nat \<Rightarrow> nat \<Rightarrow> byte list" where
  "bytesAt b off n = map (\<lambda>k. b (off + k)) [0..<n]"

text \<open>\<^verbatim>\<open>sprintf(s, "%d", i)\<close>: the decimal digits of a natural number, and
  of an \<^verbatim>\<open>int\<close> with its sign.\<close>

fun decimal :: "nat \<Rightarrow> byte list" where
  "decimal n = (if n < 10 then [48 + of_nat n] else decimal (n div 10) @ [48 + of_nat (n mod 10)])"

definition sprintfInt :: "int \<Rightarrow> byte list" where
  "sprintfInt i = (if i < 0 then 45 # decimal (nat (- i)) else decimal (nat i))"

section \<open>Lemmas\<close>

lemma length_int_bytes [simp]: "length (int_bytes n) = 4"
  by (simp add: int_bytes_def)

lemma bytes_rejoin:
  "foldr (\<lambda>b acc. ucast b OR push_bit 8 acc) (map (\<lambda>k. (ucast (drop_bit (8 * k) w) :: 8 word)) [0..<4]) (0 :: 32 word) = w"
proof (rule bit_word_eqI)
  fix n assume "n < LENGTH(32)"
  then have "n < 32" by simp
  then consider "n < 8" | "8 \<le> n \<and> n < 16" | "16 \<le> n \<and> n < 24" | "24 \<le> n \<and> n < 32"
    by linarith
  then show "bit (foldr (\<lambda>b acc. ucast b OR push_bit 8 acc)
      (map (\<lambda>k. (ucast (drop_bit (8 * k) w) :: 8 word)) [0..<4]) (0 :: 32 word)) n = bit w n"
    by cases (auto simp: upt_rec bit_simps)
qed

lemma le_int32_int_bytes:
  assumes "- (2 ^ 31) \<le> n" "n < 2 ^ 31"
  shows "le_int32 (int_bytes n @ rest) = n"
proof -
  have "le_int32 (int_bytes n @ rest) = sint (word_of_int n :: 32 word)"
    unfolding le_int32_def int_bytes_def Let_def by (simp add: bytes_rejoin)
  also have "\<dots> = n" using assms by (simp add: sint_sbintrunc' signed_take_bit_int_eq_self)
  finally show ?thesis .
qed

lemma length_bytesAt [simp]: "length (bytesAt b off n) = n"
  by (simp add: bytesAt_def)

lemma bytesAt_memcpyTo_same [simp]: "n = length bs \<Longrightarrow> bytesAt (memcpyTo b off bs) off n = bs"
  by (rule nth_equalityI) (simp_all add: bytesAt_def memcpyTo_def)

text \<open>A write leaves the bytes of a range it does not meet as they were.\<close>

lemma bytesAt_memcpyTo_apart:
  assumes "off' + n \<le> off \<or> off + length bs \<le> off'"
  shows "bytesAt (memcpyTo b off bs) off' n = bytesAt b off' n"
  using assms by (auto simp: bytesAt_def memcpyTo_def)

lemma bytesAt_cong:
  "(\<And>k. k < n \<Longrightarrow> b (off + k) = b' (off + k)) \<Longrightarrow> bytesAt b off n = bytesAt b' off n"
  by (simp add: bytesAt_def)

end
