(* ===== verification/Storage_Mgr.thy ===== *)
theory Storage_Mgr
  imports BM_Prelude
begin

text \<open>
  The storage backend (\<^verbatim>\<open>storage_mgr.c\<close>, not part of the sources and modelled
  from the specification, section 6): a page file is the list of its blocks,
  each \<open>PAGE_SIZE\<close> bytes. \<open>ensureCapacity\<close> appends zero-filled blocks,
  \<open>readBlock\<close> fails with \<open>RC_READ_NON_EXISTING_PAGE\<close> outside the file and
  \<open>writeBlock\<close> with \<open>RC_WRITE_FAILED\<close>. Block numbers are C \<open>int\<close>s.
\<close>

definition PAGE_SIZE :: nat where
  "PAGE_SIZE = 4096"

definition emptyPage :: page where
  "emptyPage = replicate PAGE_SIZE 0"

definition ensureCapacity :: "int \<Rightarrow> page list \<Rightarrow> page list" where
  "ensureCapacity numberOfPages f =
     (if int (length f) < numberOfPages
      then f @ replicate (nat numberOfPages - length f) emptyPage else f)"

definition readBlock :: "int \<Rightarrow> page list \<Rightarrow> RC + page" where
  "readBlock pageNum f =
     (if 0 \<le> pageNum \<and> pageNum < int (length f) then Inr (f ! nat pageNum)
      else Inl RC_READ_NON_EXISTING_PAGE)"

definition writeBlock :: "int \<Rightarrow> page \<Rightarrow> page list \<Rightarrow> RC + page list" where
  "writeBlock pageNum memPage f =
     (if 0 \<le> pageNum \<and> pageNum < int (length f) then Inr (f[nat pageNum := memPage])
      else Inl RC_WRITE_FAILED)"

section \<open>Lemmas\<close>

lemma length_ensureCapacity [pool_simps]:
  "length (ensureCapacity k f) = max (length f) (nat k)"
  by (auto simp: ensureCapacity_def)

lemma ensureCapacity_nth [pool_simps]:
  "i < length f \<Longrightarrow> ensureCapacity k f ! i = f ! i"
  by (simp add: ensureCapacity_def nth_append)

lemma ensureCapacity_grows: "length f \<le> length (ensureCapacity k f)"
  by (simp add: length_ensureCapacity)

text \<open>After \<open>ensureCapacity (k + 1)\<close> block \<open>k \<ge> 0\<close> can be read, and it
  holds the old contents or a fresh zero block.\<close>

lemma readBlock_ensureCapacity [pool_simps]:
  assumes "0 \<le> k"
  shows "readBlock k (ensureCapacity (k + 1) f) =
           Inr (if nat k < length f then f ! nat k else emptyPage)"
proof (cases "nat k < length f")
  case True
  then show ?thesis using assms
    by (simp add: readBlock_def length_ensureCapacity ensureCapacity_nth)
next
  case False
  then have "int (length f) < k + 1" using assms by linarith
  with False assms show ?thesis
    by (simp add: readBlock_def ensureCapacity_def nth_append)
qed

lemma readBlock_neg [pool_simps]: "k < 0 \<Longrightarrow> readBlock k f = Inl RC_READ_NON_EXISTING_PAGE"
  by (simp add: readBlock_def)

lemma writeBlock_Inr_length:
  "writeBlock k d f = Inr f' \<Longrightarrow> length f' = length f"
  by (auto simp: writeBlock_def split: if_splits)

lemma writeBlock_Inl:
  "writeBlock k d f = Inl e \<Longrightarrow> e = RC_WRITE_FAILED"
  by (auto simp: writeBlock_def split: if_splits)

lemma writeBlock_readBlock_same [pool_simps]:
  "writeBlock k d f = Inr f' \<Longrightarrow> readBlock k f' = Inr d"
  by (auto simp: writeBlock_def readBlock_def split: if_splits)

lemma writeBlock_readBlock_other [pool_simps]:
  "writeBlock k d f = Inr f' \<Longrightarrow> j \<noteq> k \<Longrightarrow> readBlock j f' = readBlock j f"
  by (auto simp: writeBlock_def readBlock_def nat_eq_iff split: if_splits)

end
