(* ===== verification/Buffer_Frames.thy ===== *)
theory Buffer_Frames
  imports Storage_Mgr
begin

text \<open>
  The data of \<^verbatim>\<open>buffer_mgr.c\<close>: the page frame, the pool with its management
  data, the page handle; pool creation, the ring search every operation starts
  with, and the operations that do not pin: \<^verbatim>\<open>markDirty\<close>,
  \<^verbatim>\<open>unpinPage\<close>, \<^verbatim>\<open>forcePage\<close>, \<^verbatim>\<open>forceFlushPool\<close>,
  \<^verbatim>\<open>shutdownBufferPool\<close> and the statistics.
\<close>

section \<open>Data\<close>

text \<open>\<^verbatim>\<open>ReplacementStrategy\<close> of \<^verbatim>\<open>buffer_mgr.h\<close> (not part of the sources),
  restricted to the three strategies \<^verbatim>\<open>pinPage\<close> dispatches on.\<close>

datatype ReplacementStrategy = RS_FIFO | RS_LRU | RS_CLOCK

text \<open>
  \<^verbatim>\<open>struct PageFrame\<close>. The C flags \<^verbatim>\<open>dirtyFlag\<close> and \<^verbatim>\<open>refBit\<close> are
  \<^verbatim>\<open>int\<close>s that only ever hold 0 or 1, so they are \<open>bool\<close>s; \<^verbatim>\<open>frameNum\<close>
  is always 0 and never read, and \<^verbatim>\<open>next\<close>/\<^verbatim>\<open>prev\<close> are the ring
  positions of \<^theory_text>\<open>BM_Prelude\<close>.
\<close>

record PageFrame =
  pageNum :: int
  dirtyFlag :: bool
  fixCount :: int
  refBit :: bool
  data :: page

text \<open>
  \<^verbatim>\<open>BM_BufferPool\<close> together with its \<^verbatim>\<open>BM_BufferPool_Mgmt\<close>. The frame
  ring is the list \<open>frames\<close>, frame 0 being \<^verbatim>\<open>start\<close>; \<^verbatim>\<open>head\<close> and
  \<^verbatim>\<open>tail\<close> are positions in it. \<open>pageFile\<close> is the content of the page
  file \<^verbatim>\<open>bm->pageFile\<close> on disk, which the pool alone reads and writes.
\<close>

record BM_BufferPool =
  pageFile :: "page list"
  numPages :: int
  strategy :: ReplacementStrategy
  frames :: "PageFrame list"
  head :: nat
  tail :: nat
  occupiedCount :: int
  numRead :: int
  numWrite :: int

text \<open>\<^verbatim>\<open>BM_PageHandle\<close>: the page number and the frame whose buffer
  \<^verbatim>\<open>page->data\<close> points to.\<close>

record BM_PageHandle =
  ph_pageNum :: int
  ph_data :: "nat option"

definition NO_PAGE :: int where
  "NO_PAGE = -1"

abbreviation nframes :: "BM_BufferPool \<Rightarrow> nat" where
  "nframes bm \<equiv> length (frames bm)"

section \<open>Creating the pool\<close>

text \<open>The frame \<^verbatim>\<open>createPageFrame\<close> allocates, appended at the tail of the
  ring. Its \<^verbatim>\<open>calloc\<close>ed buffer is zero; only its first \<open>PAGE_SIZE\<close> bytes
  are ever read or written.\<close>

definition newFrame :: PageFrame where
  "newFrame = \<lparr>pageNum = NO_PAGE, dirtyFlag = False, fixCount = 0, refBit = False,
               data = emptyPage\<rparr>"

definition createPageFrame :: "PageFrame list \<Rightarrow> PageFrame list" where
  "createPageFrame fs = fs @ [newFrame]"

definition initBufferPool ::
  "page list \<Rightarrow> int \<Rightarrow> ReplacementStrategy \<Rightarrow> BM_BufferPool" where
  "initBufferPool file nPages strat =
     \<lparr>pageFile = file, numPages = nPages, strategy = strat,
      frames = (createPageFrame ^^ nat nPages) [],
      head = 0, tail = 0, occupiedCount = 0, numRead = 0, numWrite = 0\<rparr>"

section \<open>The ring search\<close>

text \<open>
  Every operation walks the ring with a loop of the shape
  \<^verbatim>\<open>do { if (P(frame)) { ...; break; } frame = frame->next; } while (frame != stop);\<close>
  It ends with the first frame satisfying \<open>P\<close>, or with the pointer back at
  \<open>stop\<close>. Whether it ends depends on \<open>stop\<close> being a frame of the ring, so
  it is a partial function: \<open>None\<close> is the loop that runs for ever.
\<close>

datatype scan = Found nat | Wrapped nat

partial_function (option) ringScan ::
  "(nat \<Rightarrow> bool) \<Rightarrow> nat \<Rightarrow> nat \<Rightarrow> nat \<Rightarrow> scan option" where
  "ringScan P n stop frame =
     (if P frame then Some (Found frame)
      else (let frame' = nxt n frame in
            if frame' \<noteq> stop then ringScan P n stop frame' else Some (Wrapped frame')))"

text \<open>The search for a page in \<^verbatim>\<open>pinPage\<close>, \<^verbatim>\<open>markDirty\<close> and
  \<^verbatim>\<open>unpinPage\<close>: once round the ring from \<^verbatim>\<open>head\<close>, comparing
  \<^verbatim>\<open>frame->pageNum\<close> with the page number.\<close>

definition findPage :: "BM_BufferPool \<Rightarrow> int \<Rightarrow> scan option" where
  "findPage bm p =
     ringScan (\<lambda>i. pageNum (frames bm ! i) = p) (nframes bm) (head bm) (head bm)"

section \<open>Marking, unpinning, forcing\<close>

text \<open>\<^verbatim>\<open>markDirty\<close>: the first frame from \<^verbatim>\<open>head\<close> holding the handle's page
  is marked dirty; a page that is not resident is ignored. Always \<open>RC_OK\<close>.\<close>

definition markDirty :: "BM_BufferPool \<Rightarrow> BM_PageHandle \<Rightarrow> (RC \<times> BM_BufferPool) option" where
  "markDirty bm page =
     (let fs = frames bm in
      case findPage bm (ph_pageNum page) of
        None \<Rightarrow> None
      | Some (Found i) \<Rightarrow> Some (RC_OK, bm\<lparr>frames := fs[i := (fs ! i)\<lparr>dirtyFlag := True\<rparr>]\<rparr>)
      | Some (Wrapped _) \<Rightarrow> Some (RC_OK, bm))"

text \<open>\<^verbatim>\<open>unpinPage\<close>: the fix count of that frame is decremented, with no
  check that it is positive. Always \<open>RC_OK\<close>.\<close>

definition unpinPage :: "BM_BufferPool \<Rightarrow> BM_PageHandle \<Rightarrow> (RC \<times> BM_BufferPool) option" where
  "unpinPage bm page =
     (let fs = frames bm in
      case findPage bm (ph_pageNum page) of
        None \<Rightarrow> None
      | Some (Found i) \<Rightarrow>
          Some (RC_OK, bm\<lparr>frames := fs[i := (fs ! i)\<lparr>fixCount := fixCount (fs ! i) - 1\<rparr>]\<rparr>)
      | Some (Wrapped _) \<Rightarrow> Some (RC_OK, bm))"

text \<open>\<^verbatim>\<open>forcePage\<close>: the first dirty frame holding the handle's page is
  written back, whatever its fix count. The source first opens the page file
  and returns \<open>RC_FILE_NOT_FOUND\<close> if it cannot; here the page file is part
  of the pool from \<^verbatim>\<open>initBufferPool\<close> on and nothing in the model
  removes it, so that branch is not modelled (the same holds for the open in
  \<^verbatim>\<open>forceFlushPool\<close>).\<close>

definition forcePage :: "BM_BufferPool \<Rightarrow> BM_PageHandle \<Rightarrow> (RC \<times> BM_BufferPool) option" where
  "forcePage bm page =
     (let fs = frames bm in
      case ringScan (\<lambda>i. pageNum (fs ! i) = ph_pageNum page \<and> dirtyFlag (fs ! i))
             (length fs) (head bm) (head bm) of
        None \<Rightarrow> None
      | Some (Found i) \<Rightarrow>
          (case writeBlock (pageNum (fs ! i)) (data (fs ! i)) (pageFile bm) of
             Inl _ \<Rightarrow> Some (RC_WRITE_FAILED, bm)
           | Inr file \<Rightarrow> Some (RC_OK, bm\<lparr>pageFile := file, numWrite := numWrite bm + 1,
                                         frames := fs[i := (fs ! i)\<lparr>dirtyFlag := False\<rparr>]\<rparr>))
      | Some (Wrapped _) \<Rightarrow> Some (RC_OK, bm))"

section \<open>Flushing and shutdown\<close>

text \<open>The loop of \<^verbatim>\<open>forceFlushPool\<close> visits every frame once, from
  \<^verbatim>\<open>head\<close>, and writes back the dirty frames whose fix count is 0; a failed
  write ends it with \<open>RC_WRITE_FAILED\<close>.\<close>

fun flushFrames :: "nat list \<Rightarrow> BM_BufferPool \<Rightarrow> RC \<times> BM_BufferPool" where
  "flushFrames [] bm = (RC_OK, bm)"
| "flushFrames (i # is) bm =
     (let fr = frames bm ! i in
      if dirtyFlag fr \<and> fixCount fr = 0 then
        (case writeBlock (pageNum fr) (data fr) (pageFile bm) of
           Inl _ \<Rightarrow> (RC_WRITE_FAILED, bm)
         | Inr file \<Rightarrow> flushFrames is (bm\<lparr>pageFile := file,
                          frames := (frames bm)[i := fr\<lparr>dirtyFlag := False\<rparr>],
                          numWrite := numWrite bm + 1\<rparr>))
      else flushFrames is bm)"

definition forceFlushPool :: "BM_BufferPool \<Rightarrow> RC \<times> BM_BufferPool" where
  "forceFlushPool bm = flushFrames (ring_walk (nframes bm) (head bm) (head bm)) bm"

text \<open>\<^verbatim>\<open>shutdownBufferPool\<close> flushes (ignoring the result), frees the frames
  and returns \<open>RC_OK\<close>; what survives it is the page file.\<close>

definition shutdownBufferPool :: "BM_BufferPool \<Rightarrow> RC \<times> page list" where
  "shutdownBufferPool bm = (RC_OK, pageFile (snd (forceFlushPool bm)))"

section \<open>Statistics\<close>

text \<open>The statistics walk \<^verbatim>\<open>numPages\<close> frames from \<^verbatim>\<open>start\<close>.\<close>

definition getFrameContents :: "BM_BufferPool \<Rightarrow> int list" where
  "getFrameContents bm =
     map (\<lambda>i. pageNum (frames bm ! (i mod nframes bm))) [0..<nat (numPages bm)]"

definition getDirtyFlags :: "BM_BufferPool \<Rightarrow> bool list" where
  "getDirtyFlags bm =
     map (\<lambda>i. dirtyFlag (frames bm ! (i mod nframes bm))) [0..<nat (numPages bm)]"

definition getFixCounts :: "BM_BufferPool \<Rightarrow> int list" where
  "getFixCounts bm =
     map (\<lambda>i. fixCount (frames bm ! (i mod nframes bm))) [0..<nat (numPages bm)]"

definition getNumReadIO :: "BM_BufferPool \<Rightarrow> int" where
  "getNumReadIO bm = numRead bm"

definition getNumWriteIO :: "BM_BufferPool \<Rightarrow> int" where
  "getNumWriteIO bm = numWrite bm"

section \<open>Lemmas\<close>

lemma createPageFrame_pow: "(createPageFrame ^^ k) [] = replicate k newFrame"
  by (induction k) (simp_all add: createPageFrame_def replicate_append_same)

lemma frames_initBufferPool [simp]:
  "frames (initBufferPool file n s) = replicate (nat n) newFrame"
  by (simp add: initBufferPool_def createPageFrame_pow)

subsection \<open>The ring search in closed form\<close>

lemma ringScan_walk:
  assumes n: "0 < n" "start < n" "stop < n" and j: "j < walk_len n start stop"
  shows "ringScan P n stop ((start + j) mod n) =
           Some (case List.find P (map (\<lambda>j. (start + j) mod n) [j..<walk_len n start stop]) of
                   Some i \<Rightarrow> Found i | None \<Rightarrow> Wrapped stop)"
  using j
proof (induction "walk_len n start stop - j" arbitrary: j)
  case 0
  then show ?case by simp
next
  case (Suc m)
  let ?k = "walk_len n start stop"
  let ?p = "(start + j) mod n"
  have nxt_p: "nxt n ?p = (start + Suc j) mod n"
    by (simp add: nxt_def mod_Suc_eq)
  have upt: "[j..<?k] = j # [Suc j..<?k]" using Suc.prems by (simp add: upt_conv_Cons)
  show ?case
  proof (cases "P ?p")
    case True
    then show ?thesis by (simp add: ringScan.simps [of P n stop ?p] upt)
  next
    case False
    show ?thesis
    proof (cases "Suc j < ?k")
      case True
      have "(start + Suc j) mod n \<noteq> stop"
        using walk_len_inner [OF n, of "Suc j"] True by simp
      moreover have "ringScan P n stop ((start + Suc j) mod n) =
           Some (case List.find P (map (\<lambda>j. (start + j) mod n) [Suc j..<?k]) of
                   Some i \<Rightarrow> Found i | None \<Rightarrow> Wrapped stop)"
        using Suc.hyps(1) [of "Suc j"] Suc.hyps(2) True by simp
      ultimately show ?thesis using False
        by (simp add: ringScan.simps [of P n stop ?p] upt nxt_p Let_def)
    next
      case False
      with Suc.prems have "Suc j = ?k" by simp
      then have "(start + Suc j) mod n = stop" using walk_len_end [OF n] by simp
      with \<open>\<not> P ?p\<close> \<open>Suc j = ?k\<close> show ?thesis
        by (simp add: ringScan.simps [of P n stop ?p] upt nxt_p Let_def)
    qed
  qed
qed

lemma ringScan_eq:
  assumes "0 < n" "start < n" "stop < n"
  shows "ringScan P n stop start =
           Some (case List.find P (ring_walk n start stop) of Some i \<Rightarrow> Found i | None \<Rightarrow> Wrapped stop)"
  using ringScan_walk [OF assms, of 0 P] walk_len_pos [OF assms] assms(2)
  by (simp add: ring_walk_def)
end
