(* ===== verification/Buffer_Pin.thy ===== *)
theory Buffer_Pin
  imports Buffer_Frames
begin

text \<open>
  \<^verbatim>\<open>pinPage\<close> and its three strategy routines \<^verbatim>\<open>pinPageFIFO\<close>,
  \<^verbatim>\<open>pinPageLRU\<close>, \<^verbatim>\<open>pinPageCLOCK\<close>. Each first searches the ring for the
  page (a hit), otherwise fills the frame at \<^verbatim>\<open>head\<close> while the pool is not
  full, otherwise looks for a victim, writes it back if dirty and reads the
  requested block into its buffer. The pieces the three routines share are
  defined once: the fill of an empty frame, the write-back of a victim and the
  final load.
\<close>

section \<open>Shared pieces\<close>

text \<open>A frame takes page \<open>p\<close>: its page number changes and its fix count
  is incremented (not set to 1).\<close>

definition claimFrame :: "PageFrame list \<Rightarrow> nat \<Rightarrow> int \<Rightarrow> PageFrame list" where
  "claimFrame fs i p = fs[i := (fs ! i)\<lparr>pageNum := p, fixCount := fixCount (fs ! i) + 1\<rparr>]"

text \<open>The not-full branch: the frame at \<^verbatim>\<open>head\<close> takes the page, and
  \<^verbatim>\<open>head\<close> moves on unless the ring has a single frame.\<close>

definition fillFrame :: "BM_BufferPool \<Rightarrow> int \<Rightarrow> BM_BufferPool" where
  "fillFrame bm p =
     (let fs = frames bm; i = head bm; n = length fs in
      bm\<lparr>frames := claimFrame fs i p,
         head := (if nxt n i \<noteq> head bm then nxt n i else head bm),
         occupiedCount := occupiedCount bm + 1\<rparr>)"

text \<open>A dirty victim is written back before it is reused: the file is first
  grown to \<^verbatim>\<open>pageNum\<close> blocks, and a failed write aborts the pin. The dirty
  flag is not cleared.\<close>

definition writeBackVictim :: "BM_BufferPool \<Rightarrow> nat \<Rightarrow> RC \<times> BM_BufferPool" where
  "writeBackVictim bm i =
     (let fr = frames bm ! i in
      if dirtyFlag fr then
        (let file = ensureCapacity (pageNum fr) (pageFile bm) in
         case writeBlock (pageNum fr) (data fr) file of
           Inl _ \<Rightarrow> (RC_WRITE_FAILED, bm\<lparr>pageFile := file\<rparr>)
         | Inr file' \<Rightarrow> (RC_OK, bm\<lparr>pageFile := file', numWrite := numWrite bm + 1\<rparr>))
      else (RC_OK, bm))"

text \<open>The end of every miss: grow the file to \<open>p + 1\<close> blocks, read block
  \<open>p\<close> into the buffer of frame \<open>i\<close> and point the handle at it.\<close>

definition loadPage ::
  "BM_BufferPool \<Rightarrow> BM_PageHandle \<Rightarrow> int \<Rightarrow> nat \<Rightarrow> RC \<times> BM_BufferPool \<times> BM_PageHandle" where
  "loadPage bm page p i =
     (let file = ensureCapacity (p + 1) (pageFile bm); bm1 = bm\<lparr>pageFile := file\<rparr> in
      case readBlock p file of
        Inl _ \<Rightarrow> (RC_READ_NON_EXISTING_PAGE, bm1, page)
      | Inr d \<Rightarrow> (RC_OK, bm1\<lparr>frames := (frames bm1)[i := (frames bm1 ! i)\<lparr>data := d\<rparr>],
                             numRead := numRead bm + 1\<rparr>,
                  page\<lparr>ph_pageNum := p, ph_data := Some i\<rparr>))"

text \<open>A hit: one more pin on frame \<open>i\<close>, and the handle points at it.\<close>

definition pinHit ::
  "BM_BufferPool \<Rightarrow> BM_PageHandle \<Rightarrow> int \<Rightarrow> nat \<Rightarrow> BM_BufferPool \<times> BM_PageHandle" where
  "pinHit bm page p i =
     (let fs = frames bm in
      (bm\<lparr>frames := fs[i := (fs ! i)\<lparr>fixCount := fixCount (fs ! i) + 1\<rparr>]\<rparr>,
       page\<lparr>ph_pageNum := p, ph_data := Some i\<rparr>))"

section \<open>FIFO\<close>

text \<open>The victim search starts at \<^verbatim>\<open>tail\<close> and stops when the pointer
  reaches \<^verbatim>\<open>head\<close>; if every frame it visits is pinned, the block is read into
  the frame at \<^verbatim>\<open>head\<close> and nothing else changes.\<close>

definition pinPageFIFO ::
  "BM_BufferPool \<Rightarrow> BM_PageHandle \<Rightarrow> int \<Rightarrow> (RC \<times> BM_BufferPool \<times> BM_PageHandle) option" where
  "pinPageFIFO bm page p =
     (let fs = frames bm; n = length fs in
      case findPage bm p of
        None \<Rightarrow> None
      | Some (Found i) \<Rightarrow> Some (let (bm', page') = pinHit bm page p i in (RC_OK, bm', page'))
      | Some (Wrapped _) \<Rightarrow>
          if occupiedCount bm < numPages bm then Some (loadPage (fillFrame bm p) page p (head bm))
          else
            (case ringScan (\<lambda>i. fixCount (fs ! i) = 0) n (head bm) (tail bm) of
               None \<Rightarrow> None
             | Some (Found i) \<Rightarrow>
                 (let (rc, bm1) = writeBackVictim bm i in
                  if rc \<noteq> RC_OK then Some (rc, bm1, page)
                  else Some (loadPage (bm1\<lparr>frames := claimFrame fs i p,
                                           tail := nxt n i, head := i\<rparr>) page p i))
             | Some (Wrapped j) \<Rightarrow> Some (loadPage bm page p j)))"

section \<open>LRU\<close>

text \<open>A hit makes the frame \<^verbatim>\<open>head\<close> and sets \<^verbatim>\<open>tail\<close> to the frame after
  the old \<^verbatim>\<open>head\<close>. The victim search goes once round the ring from
  \<^verbatim>\<open>tail\<close>. When \<^verbatim>\<open>tail = head\<close> the page goes into the frame after the
  victim, which is not checked.\<close>

definition pinPageLRU ::
  "BM_BufferPool \<Rightarrow> BM_PageHandle \<Rightarrow> int \<Rightarrow> (RC \<times> BM_BufferPool \<times> BM_PageHandle) option" where
  "pinPageLRU bm page p =
     (let fs = frames bm; n = length fs in
      case findPage bm p of
        None \<Rightarrow> None
      | Some (Found i) \<Rightarrow>
          Some (let (bm', page') = pinHit bm page p i
                in (RC_OK, bm'\<lparr>tail := nxt n (head bm), head := i\<rparr>, page'))
      | Some (Wrapped _) \<Rightarrow>
          if occupiedCount bm < numPages bm then Some (loadPage (fillFrame bm p) page p (head bm))
          else
            (case ringScan (\<lambda>i. fixCount (fs ! i) = 0) n (tail bm) (tail bm) of
               None \<Rightarrow> None
             | Some (Found i) \<Rightarrow>
                 (let (rc, bm1) = writeBackVictim bm i in
                  if rc \<noteq> RC_OK then Some (rc, bm1, page)
                  else if tail bm \<noteq> head bm then
                    Some (loadPage (bm1\<lparr>frames := claimFrame fs i p, tail := nxt n i\<rparr>) page p i)
                  else
                    (let j = nxt n i in
                     Some (loadPage (bm1\<lparr>frames := claimFrame fs j p, head := j, tail := prv n j\<rparr>)
                             page p j)))
             | Some (Wrapped j) \<Rightarrow> Some (loadPage bm page p j)))"

section \<open>CLOCK\<close>

text \<open>The inner sweep \<^verbatim>\<open>while (frame->refBit != 0) { frame->refBit = 0;
  frame = frame->next; }\<close>: it clears reference bits, pinned frames included,
  and stops at the first frame whose bit is clear.\<close>

partial_function (option) clockSweep ::
  "PageFrame list \<Rightarrow> nat \<Rightarrow> (PageFrame list \<times> nat) option" where
  "clockSweep fs frame =
     (if refBit (fs ! frame)
      then clockSweep (fs[frame := (fs ! frame)\<lparr>refBit := False\<rparr>]) (nxt (length fs) frame)
      else Some (fs, frame))"

text \<open>A hit and a fill set the reference bit. The victim search goes round
  the ring from \<^verbatim>\<open>head\<close> to the first unpinned frame and sweeps from there;
  the frame the sweep stops at is evicted, pinned or not.\<close>

definition pinPageCLOCK ::
  "BM_BufferPool \<Rightarrow> BM_PageHandle \<Rightarrow> int \<Rightarrow> (RC \<times> BM_BufferPool \<times> BM_PageHandle) option" where
  "pinPageCLOCK bm page p =
     (let fs = frames bm; n = length fs in
      case findPage bm p of
        None \<Rightarrow> None
      | Some (Found i) \<Rightarrow>
          Some (RC_OK, bm\<lparr>frames := fs[i := (fs ! i)\<lparr>refBit := True,
                                                  fixCount := fixCount (fs ! i) + 1\<rparr>]\<rparr>,
                page\<lparr>ph_pageNum := p, ph_data := Some i\<rparr>)
      | Some (Wrapped _) \<Rightarrow>
          if occupiedCount bm < numPages bm then
            Some (loadPage (fillFrame (bm\<lparr>frames := fs[head bm := (fs ! head bm)\<lparr>refBit := True\<rparr>]\<rparr>) p)
                    page p (head bm))
          else
            (case ringScan (\<lambda>i. fixCount (fs ! i) = 0) n (head bm) (head bm) of
               None \<Rightarrow> None
             | Some (Found i) \<Rightarrow>
                 (case clockSweep fs i of
                    None \<Rightarrow> None
                  | Some (fs', j) \<Rightarrow>
                      (let (rc, bm1) = writeBackVictim (bm\<lparr>frames := fs'\<rparr>) j in
                       if rc \<noteq> RC_OK then Some (rc, bm1, page)
                       else Some (loadPage (bm1\<lparr>frames := claimFrame (fs'[j := (fs' ! j)\<lparr>refBit := True\<rparr>]) j p,
                                                head := nxt n j\<rparr>) page p j)))
             | Some (Wrapped j) \<Rightarrow> Some (loadPage bm page p j)))"

section \<open>pinPage\<close>

text \<open>\<^verbatim>\<open>pinPage\<close> dispatches on the strategy and returns \<open>RC_OK\<close> whatever
  the strategy routine returned.\<close>

definition pinPage ::
  "BM_BufferPool \<Rightarrow> BM_PageHandle \<Rightarrow> int \<Rightarrow> (RC \<times> BM_BufferPool \<times> BM_PageHandle) option" where
  "pinPage bm page p =
     map_option (\<lambda>(_, bm', page'). (RC_OK, bm', page'))
       (case strategy bm of
          RS_FIFO \<Rightarrow> pinPageFIFO bm page p
        | RS_LRU \<Rightarrow> pinPageLRU bm page p
        | RS_CLOCK \<Rightarrow> pinPageCLOCK bm page p)"

end
