(* ===== verification/Buffer_Pool.thy ===== *)
theory Buffer_Pool
  imports Buffer_Pin
begin

text \<open>
  The invariant of a buffer pool and its preservation by every operation of
  \<^verbatim>\<open>buffer_mgr.c\<close>; the facts about the loops that the preservation proofs
  rest on (each loop ends, and where it stops).
\<close>

section \<open>The invariant\<close>

text \<open>At most one frame holds a given page (the empty sentinel apart).\<close>

definition distinct_pages :: "int list \<Rightarrow> bool" where
  "distinct_pages ps \<longleftrightarrow>
     (\<forall>i < length ps. \<forall>j < length ps. i \<noteq> j \<longrightarrow> ps ! i = ps ! j \<longrightarrow> ps ! i = NO_PAGE)"

text \<open>The ring is not empty and has \<^verbatim>\<open>numPages\<close> frames, \<^verbatim>\<open>head\<close> and
  \<^verbatim>\<open>tail\<close> are frames of it, \<open>0 \<le> occupiedCount \<le> numPages\<close>, and the
  resident pages are distinct.\<close>

definition wf_pool :: "BM_BufferPool \<Rightarrow> bool" where
  "wf_pool bm \<longleftrightarrow>
     0 < nframes bm \<and> numPages bm = int (nframes bm) \<and>
     head bm < nframes bm \<and> tail bm < nframes bm \<and>
     0 \<le> occupiedCount bm \<and> occupiedCount bm \<le> numPages bm \<and>
     distinct_pages (map pageNum (frames bm))"

text \<open>Two pools agree on everything the invariant reads.\<close>

definition same_shape :: "BM_BufferPool \<Rightarrow> BM_BufferPool \<Rightarrow> bool" where
  "same_shape bm bm' \<longleftrightarrow>
     map pageNum (frames bm') = map pageNum (frames bm) \<and> numPages bm' = numPages bm \<and>
     head bm' = head bm \<and> tail bm' = tail bm \<and> occupiedCount bm' = occupiedCount bm"

text \<open>What the CLOCK sweep leaves: the same frames up to their reference
  bits, and a stop frame whose bit is clear.\<close>

definition sweep_result :: "PageFrame list \<Rightarrow> PageFrame list \<Rightarrow> nat \<Rightarrow> bool" where
  "sweep_result fs fs' j \<longleftrightarrow>
     length fs' = length fs \<and> j < length fs \<and> \<not> refBit (fs' ! j) \<and>
     (\<forall>k < length fs. fs' ! k = (fs ! k)\<lparr>refBit := refBit (fs' ! k)\<rparr>)"

section \<open>Resident pages\<close>

lemma distinct_pages_update_same [pool_simps]:
  "distinct_pages ps \<Longrightarrow> q = ps ! i \<Longrightarrow> distinct_pages (ps[i := q])"
  by simp

lemma distinct_pages_update_fresh:
  assumes "distinct_pages ps" "\<forall>k < length ps. ps ! k \<noteq> q"
  shows "distinct_pages (ps[i := q])"
proof (cases "i < length ps")
  case True
  show ?thesis unfolding distinct_pages_def
  proof (intro allI impI)
    fix a b assume ab: "a < length (ps[i := q])" "b < length (ps[i := q])" "a \<noteq> b"
      "ps[i := q] ! a = ps[i := q] ! b"
    show "ps[i := q] ! a = NO_PAGE"
    proof (cases "a = i \<or> b = i")
      case True
      with ab assms(2) \<open>i < length ps\<close> show ?thesis by (auto simp: nth_list_update)
    next
      case False
      with ab assms(1) show ?thesis by (simp add: distinct_pages_def)
    qed
  qed
qed (use assms in \<open>simp add: list_update_beyond\<close>)

lemma distinct_pages_replicate [pool_simps]: "distinct_pages (replicate n NO_PAGE)"
  by (simp add: distinct_pages_def)

lemma wf_pool_same_shape:
  "wf_pool bm \<Longrightarrow> same_shape bm bm' \<Longrightarrow> wf_pool bm'"
proof -
  assume "wf_pool bm" "same_shape bm bm'"
  moreover have "nframes bm' = nframes bm" if "map pageNum (frames bm') = map pageNum (frames bm)"
    using that by (metis length_map)
  ultimately show "wf_pool bm'" by (simp add: wf_pool_def same_shape_def)
qed

lemma same_shape_refl [pool_simps]: "same_shape bm bm"
  by (simp add: same_shape_def)

section \<open>Where the loops stop\<close>

text \<open>Under the invariant the ring search ends; a \<open>Found\<close> frame is in the
  ring and satisfies the test, and a search once round the ring that wraps
  has found no frame satisfying it.\<close>

lemma ringScan_Some:
  assumes "0 < n" "start < n" "stop < n"
  shows "\<exists>r. ringScan P n stop start = Some r"
  using ringScan_eq [OF assms] by simp

lemma ringScan_Found:
  assumes "0 < n" "start < n" "stop < n" "ringScan P n stop start = Some (Found i)"
  shows "i < n \<and> P i"
  using assms ringScan_eq [OF assms(1-3), of P]
  by (auto split: option.splits dest!: find_Some_in_set intro: set_ring_walk_lt)

lemma ringScan_Wrapped:
  assumes "0 < n" "start < n" "stop < n" "ringScan P n stop start = Some (Wrapped j)"
  shows "j = stop \<and> (\<forall>i \<in> set (ring_walk n start stop). \<not> P i)"
  using assms ringScan_eq [OF assms(1-3), of P]
  by (auto split: option.splits simp: find_None_iff)

lemma ringScan_Wrapped_full:
  assumes "start < n" "ringScan P n start start = Some (Wrapped j)"
  shows "j = start \<and> (\<forall>i < n. \<not> P i)"
  using ringScan_Wrapped [of n start start P j] assms set_ring_walk_full [OF assms(1)]
  by auto

text \<open>The sweep of \<^verbatim>\<open>pinPageCLOCK\<close> ends: each round clears a set
  reference bit, so the number of set bits bounds it. It changes reference
  bits only, and stops at a frame whose bit is clear.\<close>

lemma card_refBits_update:
  assumes "i < length fs" "refBit (fs ! i)"
  shows "card {k. k < length fs \<and> refBit ((fs[i := (fs ! i)\<lparr>refBit := False\<rparr>]) ! k)}
           < card {k. k < length fs \<and> refBit (fs ! k)}"
proof -
  have "{k. k < length fs \<and> refBit ((fs[i := (fs ! i)\<lparr>refBit := False\<rparr>]) ! k)}
          = {k. k < length fs \<and> refBit (fs ! k)} - {i}"
    using assms by (auto simp: nth_list_update split: if_splits)
  moreover have "i \<in> {k. k < length fs \<and> refBit (fs ! k)}" using assms by simp
  moreover have "finite {k. k < length fs \<and> refBit (fs ! k)}" by simp
  ultimately show ?thesis by (metis card_Diff1_less)
qed

lemma clockSweep_result:
  "i < length fs \<Longrightarrow> \<exists>fs' j. clockSweep fs i = Some (fs', j) \<and> sweep_result fs fs' j"
proof (induction "card {k. k < length fs \<and> refBit (fs ! k)}" arbitrary: fs i rule: less_induct)
  case less
  show ?case
  proof (cases "refBit (fs ! i)")
    case False
    then show ?thesis using less.prems
      by (auto simp: clockSweep.simps [of fs i] sweep_result_def)
  next
    case True
    let ?fs1 = "fs[i := (fs ! i)\<lparr>refBit := False\<rparr>]"
    have n: "0 < length fs" using less.prems by linarith
    have "nxt (length ?fs1) i < length ?fs1" using n by (simp add: nxt_lt)
    moreover have "card {k. k < length ?fs1 \<and> refBit (?fs1 ! k)}
                     < card {k. k < length fs \<and> refBit (fs ! k)}"
      using card_refBits_update [OF less.prems True] by simp
    ultimately obtain fs' j where rec: "clockSweep ?fs1 (nxt (length ?fs1) i) = Some (fs', j)"
      and res: "sweep_result ?fs1 fs' j"
      using less.hyps by blast
    have "sweep_result fs fs' j"
      using res less.prems unfolding sweep_result_def
      by (auto simp: nth_list_update split: if_splits)
    with rec True show ?thesis by (simp add: clockSweep.simps [of fs i])
  qed
qed


section \<open>Preservation of the invariant\<close>

subsection \<open>The pieces of a pin\<close>

lemma map_pageNum_update_same [simp]:
  "pageNum x = pageNum (fs ! j) \<Longrightarrow> map pageNum (fs[j := x]) = map pageNum fs"
  by (cases "j < length fs") (simp_all add: map_update list_update_beyond, metis list_update_id nth_map)

lemma length_claimFrame [simp]: "length (claimFrame fs i p) = length fs"
  by (simp add: claimFrame_def)

lemma distinct_pages_claimFrame:
  assumes "distinct_pages (map pageNum fs)" "\<forall>k < length fs. pageNum (fs ! k) \<noteq> p" "i < length fs"
  shows "distinct_pages (map pageNum (claimFrame fs i p))"
proof -
  have "map pageNum (claimFrame fs i p) = (map pageNum fs)[i := p]"
    using assms(3) by (simp add: claimFrame_def map_update)
  moreover have "\<forall>k < length (map pageNum fs). map pageNum fs ! k \<noteq> p" using assms(2) by simp
  ultimately show ?thesis using distinct_pages_update_fresh [OF assms(1)] by simp
qed

lemma findPage_wf:
  assumes "wf_pool bm"
  obtains i where "findPage bm p = Some (Found i)" "i < nframes bm" "pageNum (frames bm ! i) = p"
  | "findPage bm p = Some (Wrapped (head bm))" "\<forall>k < nframes bm. pageNum (frames bm ! k) \<noteq> p"
proof -
  from assms have n: "0 < nframes bm" "head bm < nframes bm" by (simp_all add: wf_pool_def)
  obtain s where s: "findPage bm p = Some s"
    using ringScan_Some [OF n(1) n(2) n(2)] by (auto simp: findPage_def)
  show thesis
  proof (cases s)
    case (Found i)
    with s n show thesis using that(1) ringScan_Found [OF n(1) n(2) n(2)] by (auto simp: findPage_def)
  next
    case (Wrapped j)
    with s n show thesis using that(2) ringScan_Wrapped_full [OF n(2)] by (auto simp: findPage_def)
  qed
qed

lemma victimScan_wf:
  assumes "0 < n" "a < n" "b < n"
  obtains i where "ringScan P n b a = Some (Found i)" "i < n" "P i"
  | "ringScan P n b a = Some (Wrapped b)"
proof -
  obtain s where s: "ringScan P n b a = Some s" using ringScan_Some [OF assms] by blast
  show thesis
  proof (cases s)
    case (Found i)
    with s show thesis using that(1) ringScan_Found [OF assms] by auto
  next
    case (Wrapped j)
    with s show thesis using that(2) ringScan_Wrapped [OF assms] by auto
  qed
qed

lemma writeBackVictim_shape:
  assumes "writeBackVictim bm i = (rc, bm1)"
  shows "frames bm1 = frames bm \<and> same_shape bm bm1 \<and> numRead bm1 = numRead bm \<and>
         numWrite bm \<le> numWrite bm1 \<and> numWrite bm1 \<le> numWrite bm + 1"
  using assms unfolding writeBackVictim_def Let_def
  by (auto simp: same_shape_def split: if_splits sum.splits)

lemma loadPage_shape:
  assumes "loadPage bm h p i = (rc, bm1, h1)"
  shows "same_shape bm bm1 \<and> numWrite bm1 = numWrite bm \<and>
         numRead bm \<le> numRead bm1 \<and> numRead bm1 \<le> numRead bm + 1"
  using assms unfolding loadPage_def Let_def
  by (auto simp: same_shape_def split: sum.splits)

lemma pinHit_shape:
  assumes "pinHit bm h p i = (bm1, h1)"
  shows "same_shape bm bm1 \<and> pageFile bm1 = pageFile bm \<and> numRead bm1 = numRead bm \<and>
         numWrite bm1 = numWrite bm"
  using assms by (auto simp: pinHit_def same_shape_def Let_def)

lemma wf_loadPage:
  "wf_pool bm \<Longrightarrow> loadPage bm h p i = (rc, bm1, h1) \<Longrightarrow> wf_pool bm1"
  using loadPage_shape wf_pool_same_shape by blast

lemma wf_fillFrame:
  assumes "wf_pool bm" "occupiedCount bm < numPages bm" "\<forall>k < nframes bm. pageNum (frames bm ! k) \<noteq> p"
  shows "wf_pool (fillFrame bm p)"
  using assms distinct_pages_claimFrame [of "frames bm" p "head bm"]
  by (auto simp: wf_pool_def fillFrame_def Let_def nxt_lt)

subsection \<open>The three strategies\<close>

lemma wf_pinPageFIFO:
  assumes wf: "wf_pool bm" and r: "pinPageFIFO bm h p = Some (rc, bm', h')"
  shows "wf_pool bm'"
proof -
  from wf have n: "0 < nframes bm" "head bm < nframes bm" "tail bm < nframes bm"
    by (simp_all add: wf_pool_def)
  show ?thesis
  proof (cases rule: findPage_wf [OF wf, of p])
    case (1 i)
    obtain b g where hit: "pinHit bm h p i = (b, g)" by fastforce
    with r 1 have "bm' = b" by (simp add: pinPageFIFO_def Let_def)
    with pinHit_shape [OF hit] wf show ?thesis using wf_pool_same_shape by blast
  next
    case 2
    note fresh = 2(2)
    show ?thesis
    proof (cases "occupiedCount bm < numPages bm")
      case True
      with r 2 have "loadPage (fillFrame bm p) h p (head bm) = (rc, bm', h')"
        by (simp add: pinPageFIFO_def Let_def)
      with wf_fillFrame [OF wf True fresh] show ?thesis by (rule wf_loadPage)
    next
      case False
      show ?thesis
      proof (cases rule: victimScan_wf [OF n(1) n(3) n(2), of "\<lambda>i. fixCount (frames bm ! i) = 0"])
        case (1 i)
        obtain rc1 bm1 where wb: "writeBackVictim bm i = (rc1, bm1)" by fastforce
        note sh = writeBackVictim_shape [OF wb]
        have wf1: "wf_pool bm1" using wf_pool_same_shape [OF wf] sh by blast
        show ?thesis
        proof (cases "rc1 = RC_OK")
          case True
          with r 2 False 1 wb have "loadPage (bm1\<lparr>frames := claimFrame (frames bm) i p,
              tail := nxt (nframes bm) i, head := i\<rparr>) h p i = (rc, bm', h')"
            by (simp add: pinPageFIFO_def Let_def)
          moreover have "wf_pool (bm1\<lparr>frames := claimFrame (frames bm) i p,
              tail := nxt (nframes bm) i, head := i\<rparr>)"
            using wf1 sh 1 fresh distinct_pages_claimFrame [of "frames bm" p i] wf
            by (auto simp: wf_pool_def nxt_lt)
          ultimately show ?thesis using wf_loadPage by blast
        next
          case False
          with r 2 \<open>\<not> occupiedCount bm < numPages bm\<close> 1 wb wf1 show ?thesis
            by (simp add: pinPageFIFO_def Let_def)
        qed
      next
        case 2
        with r \<open>findPage bm p = Some (Wrapped (head bm))\<close> False
        have "loadPage bm h p (head bm) = (rc, bm', h')" by (simp add: pinPageFIFO_def Let_def)
        with wf show ?thesis by (rule wf_loadPage)
      qed
    qed
  qed
qed
lemma wf_frames_update:
  "wf_pool bm \<Longrightarrow> map pageNum fs' = map pageNum (frames bm) \<Longrightarrow> wf_pool (bm\<lparr>frames := fs'\<rparr>)"
  using wf_pool_same_shape [of bm] by (simp add: same_shape_def)

lemma sweep_result_frames:
  assumes "sweep_result fs fs' j" "k < length fs"
  shows "pageNum (fs' ! k) = pageNum (fs ! k) \<and> fixCount (fs' ! k) = fixCount (fs ! k) \<and>
         dirtyFlag (fs' ! k) = dirtyFlag (fs ! k) \<and> data (fs' ! k) = data (fs ! k)"
proof -
  obtain b where "fs' ! k = (fs ! k)\<lparr>refBit := b\<rparr>"
    using assms by (auto simp: sweep_result_def)
  then show ?thesis by simp
qed

lemma sweep_result_pageNum:
  assumes "sweep_result fs fs' j"
  shows "map pageNum fs' = map pageNum fs"
proof (rule nth_equalityI)
  have len: "length fs' = length fs" using assms by (simp add: sweep_result_def)
  then show "length (map pageNum fs') = length (map pageNum fs)" by simp
  fix k assume "k < length (map pageNum fs')"
  with len have k: "k < length fs" "k < length fs'" by simp_all
  then show "map pageNum fs' ! k = map pageNum fs ! k"
    using sweep_result_frames [OF assms k(1)] by simp
qed

lemma wf_pinPageLRU:
  assumes wf: "wf_pool bm" and r: "pinPageLRU bm h p = Some (rc, bm', h')"
  shows "wf_pool bm'"
proof -
  from wf have n: "0 < nframes bm" "head bm < nframes bm" "tail bm < nframes bm"
    by (simp_all add: wf_pool_def)
  show ?thesis
  proof (cases rule: findPage_wf [OF wf, of p])
    case (1 i)
    obtain b g where hit: "pinHit bm h p i = (b, g)" by fastforce
    with r 1 have "bm' = b\<lparr>tail := nxt (nframes bm) (head bm), head := i\<rparr>"
      by (simp add: pinPageLRU_def Let_def)
    moreover have "wf_pool b" using pinHit_shape [OF hit] wf wf_pool_same_shape by blast
    moreover have "nframes b = nframes bm" using pinHit_shape [OF hit]
      by (metis same_shape_def length_map)
    ultimately show ?thesis using 1 n by (simp add: wf_pool_def nxt_lt)
  next
    case 2
    note fresh = 2(2)
    show ?thesis
    proof (cases "occupiedCount bm < numPages bm")
      case True
      with r 2 have "loadPage (fillFrame bm p) h p (head bm) = (rc, bm', h')"
        by (simp add: pinPageLRU_def Let_def)
      with wf_fillFrame [OF wf True fresh] show ?thesis by (rule wf_loadPage)
    next
      case False
      show ?thesis
      proof (cases rule: victimScan_wf [OF n(1) n(3) n(3), of "\<lambda>i. fixCount (frames bm ! i) = 0"])
        case (1 i)
        obtain rc1 bm1 where wb: "writeBackVictim bm i = (rc1, bm1)" by fastforce
        note sh = writeBackVictim_shape [OF wb]
        have wf1: "wf_pool bm1" using wf_pool_same_shape [OF wf] sh by blast
        consider (err) "rc1 \<noteq> RC_OK" | (near) "rc1 = RC_OK" "tail bm \<noteq> head bm"
          | (far) "rc1 = RC_OK" "tail bm = head bm" by blast
        then show ?thesis
        proof cases
          case err
          with r 2 False 1 wb wf1 show ?thesis by (simp add: pinPageLRU_def Let_def)
        next
          case near
          with r 2 False 1 wb have "loadPage (bm1\<lparr>frames := claimFrame (frames bm) i p,
              tail := nxt (nframes bm) i\<rparr>) h p i = (rc, bm', h')"
            by (simp add: pinPageLRU_def Let_def)
          moreover have "wf_pool (bm1\<lparr>frames := claimFrame (frames bm) i p,
              tail := nxt (nframes bm) i\<rparr>)"
            using wf1 sh 1 fresh distinct_pages_claimFrame [of "frames bm" p i] wf
            by (auto simp: wf_pool_def nxt_lt)
          ultimately show ?thesis using wf_loadPage by blast
        next
          case far
          let ?j = "nxt (nframes bm) i"
          have j: "?j < nframes bm" using n by (simp add: nxt_lt)
          from far r 2 False 1 wb have "loadPage (bm1\<lparr>frames := claimFrame (frames bm) ?j p,
              head := ?j, tail := prv (nframes bm) ?j\<rparr>) h p ?j = (rc, bm', h')"
            by (simp add: pinPageLRU_def Let_def)
          moreover have "wf_pool (bm1\<lparr>frames := claimFrame (frames bm) ?j p,
              head := ?j, tail := prv (nframes bm) ?j\<rparr>)"
            using wf1 sh j fresh distinct_pages_claimFrame [of "frames bm" p ?j] wf
            by (auto simp: wf_pool_def prv_lt)
          ultimately show ?thesis using wf_loadPage by blast
        qed
      next
        case 2
        with r \<open>findPage bm p = Some (Wrapped (head bm))\<close> False
        have "loadPage bm h p (tail bm) = (rc, bm', h')" by (simp add: pinPageLRU_def Let_def)
        with wf show ?thesis by (rule wf_loadPage)
      qed
    qed
  qed
qed

lemma wf_pinPageCLOCK:
  assumes wf: "wf_pool bm" and r: "pinPageCLOCK bm h p = Some (rc, bm', h')"
  shows "wf_pool bm'"
proof -
  from wf have n: "0 < nframes bm" "head bm < nframes bm" "tail bm < nframes bm"
    by (simp_all add: wf_pool_def)
  show ?thesis
  proof (cases rule: findPage_wf [OF wf, of p])
    case (1 i)
    with r have "bm' = bm\<lparr>frames := (frames bm)[i := (frames bm ! i)\<lparr>refBit := True,
                    fixCount := fixCount (frames bm ! i) + 1\<rparr>]\<rparr>"
      by (simp add: pinPageCLOCK_def Let_def)
    with wf show ?thesis by (simp add: wf_frames_update)
  next
    case 2
    note fresh = 2(2)
    show ?thesis
    proof (cases "occupiedCount bm < numPages bm")
      case True
      let ?bm0 = "bm\<lparr>frames := (frames bm)[head bm := (frames bm ! head bm)\<lparr>refBit := True\<rparr>]\<rparr>"
      have wf0: "wf_pool ?bm0" using wf by (simp add: wf_frames_update)
      have fresh0: "\<forall>k < nframes ?bm0. pageNum (frames ?bm0 ! k) \<noteq> p"
        using fresh n(2) by (auto simp: nth_list_update)
      from True have "occupiedCount ?bm0 < numPages ?bm0" by simp
      note wff = wf_fillFrame [OF wf0 this fresh0]
      from True r 2 have "loadPage (fillFrame ?bm0 p) h p (head bm) = (rc, bm', h')"
        by (simp add: pinPageCLOCK_def Let_def)
      with wff show ?thesis by (rule wf_loadPage)
    next
      case False
      show ?thesis
      proof (cases rule: victimScan_wf [OF n(1) n(2) n(2), of "\<lambda>i. fixCount (frames bm ! i) = 0"])
        case (1 i)
        obtain fs' j where sw: "clockSweep (frames bm) i = Some (fs', j)"
          and res: "sweep_result (frames bm) fs' j"
          using clockSweep_result [of i "frames bm"] 1 by blast
        have pn: "map pageNum fs' = map pageNum (frames bm)" by (rule sweep_result_pageNum [OF res])
        have jn: "j < nframes bm" and len: "length fs' = nframes bm"
          using res by (simp_all add: sweep_result_def)
        obtain rc1 bm1 where wb: "writeBackVictim (bm\<lparr>frames := fs'\<rparr>) j = (rc1, bm1)" by fastforce
        note sh = writeBackVictim_shape [OF wb]
        have wf1: "wf_pool bm1"
          using wf_pool_same_shape [OF wf_frames_update [OF wf pn]] sh by blast
        let ?fs1 = "fs'[j := (fs' ! j)\<lparr>refBit := True\<rparr>]"
        have fresh1: "\<forall>k < length ?fs1. pageNum (?fs1 ! k) \<noteq> p"
        proof (intro allI impI)
          fix k assume "k < length ?fs1"
          then have k: "k < length fs'" by simp
          have "pageNum (?fs1 ! k) = pageNum (fs' ! k)"
            using k by (cases "k = j") (simp_all add: nth_list_update)
          also have "\<dots> = pageNum (frames bm ! k)" using sweep_result_frames [OF res] k len by simp
          finally show "pageNum (?fs1 ! k) \<noteq> p" using fresh k len by simp
        qed
        have dist1: "distinct_pages (map pageNum ?fs1)"
          using wf pn by (simp add: wf_pool_def)
        show ?thesis
        proof (cases "rc1 = RC_OK")
          case True
          let ?fs2 = "claimFrame ?fs1 j p"
          from True r 2 False 1 sw wb have "loadPage (bm1\<lparr>frames := ?fs2,
              head := nxt (nframes bm) j\<rparr>) h p j = (rc, bm', h')"
            by (simp add: pinPageCLOCK_def Let_def)
          moreover have "distinct_pages (map pageNum ?fs2)"
            using distinct_pages_claimFrame [OF dist1 fresh1] jn len by simp
          moreover have "wf_pool (bm1\<lparr>frames := ?fs2, head := nxt (nframes bm) j\<rparr>)"
            using wf1 sh jn len calculation(2) n
            by (auto simp: wf_pool_def nxt_lt)
          ultimately show ?thesis using wf_loadPage by blast
        next
          case False
          with r 2 \<open>\<not> occupiedCount bm < numPages bm\<close> 1 sw wb wf1 show ?thesis
            by (simp add: pinPageCLOCK_def Let_def)
        qed
      next
        case 2
        with r \<open>findPage bm p = Some (Wrapped (head bm))\<close> False
        have "loadPage bm h p (head bm) = (rc, bm', h')" by (simp add: pinPageCLOCK_def Let_def)
        with wf show ?thesis by (rule wf_loadPage)
      qed
    qed
  qed
qed



subsection \<open>Termination of pinPage\<close>

lemma triple_ex: "\<exists>a b c. x = (a, b, c)"
  by (cases x) auto

lemma pinPageFIFO_Some:
  assumes wf: "wf_pool bm"
  shows "pinPageFIFO bm h p \<noteq> None"
proof -
  from wf have n: "0 < nframes bm" "head bm < nframes bm" "tail bm < nframes bm"
    by (simp_all add: wf_pool_def)
  show ?thesis
  proof (cases rule: findPage_wf [OF wf, of p])
    case 2
    then show ?thesis
      by (cases rule: victimScan_wf [OF n(1) n(3) n(2), of "\<lambda>i. fixCount (frames bm ! i) = 0"])
         (simp_all add: pinPageFIFO_def Let_def split_def triple_ex)
  qed (simp add: pinPageFIFO_def Let_def split_def triple_ex)
qed

lemma pinPageLRU_Some:
  assumes wf: "wf_pool bm"
  shows "pinPageLRU bm h p \<noteq> None"
proof -
  from wf have n: "0 < nframes bm" "head bm < nframes bm" "tail bm < nframes bm"
    by (simp_all add: wf_pool_def)
  show ?thesis
  proof (cases rule: findPage_wf [OF wf, of p])
    case 2
    then show ?thesis
      by (cases rule: victimScan_wf [OF n(1) n(3) n(3), of "\<lambda>i. fixCount (frames bm ! i) = 0"])
         (simp_all add: pinPageLRU_def Let_def split_def triple_ex)
  qed (simp add: pinPageLRU_def Let_def split_def triple_ex)
qed

lemma pinPageCLOCK_Some:
  assumes wf: "wf_pool bm"
  shows "pinPageCLOCK bm h p \<noteq> None"
proof -
  from wf have n: "0 < nframes bm" "head bm < nframes bm" "tail bm < nframes bm"
    by (simp_all add: wf_pool_def)
  show ?thesis
  proof (cases rule: findPage_wf [OF wf, of p])
    case 2
    show ?thesis
    proof (cases rule: victimScan_wf [OF n(1) n(2) n(2), of "\<lambda>i. fixCount (frames bm ! i) = 0"])
      case (1 i)
      then obtain fs' j where "clockSweep (frames bm) i = Some (fs', j)"
        using clockSweep_result [of i "frames bm"] by blast
      with 1 2 show ?thesis by (simp add: pinPageCLOCK_def Let_def split_def triple_ex)
    qed (use 2 in \<open>simp add: pinPageCLOCK_def Let_def triple_ex\<close>)
  qed (simp add: pinPageCLOCK_def Let_def triple_ex)
qed

lemma wf_pinPage_strategy:
  "wf_pool bm \<Longrightarrow> pinPage bm h p = Some (rc, bm', h') \<Longrightarrow> wf_pool bm'"
  by (cases "strategy bm")
     (auto simp: pinPage_def dest: wf_pinPageFIFO wf_pinPageLRU wf_pinPageCLOCK)

lemma pinPage_Some:
  assumes "wf_pool bm"
  shows "\<exists>r. pinPage bm h p = Some r"
proof -
  have "(case strategy bm of RS_FIFO \<Rightarrow> pinPageFIFO bm h p | RS_LRU \<Rightarrow> pinPageLRU bm h p
          | RS_CLOCK \<Rightarrow> pinPageCLOCK bm h p) \<noteq> None"
    using assms pinPageFIFO_Some pinPageLRU_Some pinPageCLOCK_Some
    by (cases "strategy bm") simp_all
  then show ?thesis by (auto simp: pinPage_def)
qed


subsection \<open>Marking, unpinning, forcing, flushing\<close>

lemma findPage_unique:
  assumes wf: "wf_pool bm" and i: "i < nframes bm" "pageNum (frames bm ! i) = p" "p \<noteq> NO_PAGE"
  shows "findPage bm p = Some (Found i)"
proof (cases rule: findPage_wf [OF wf, of p])
  case (1 j)
  with wf i have "j = i" unfolding wf_pool_def distinct_pages_def by force
  with 1 show ?thesis by simp
next
  case 2
  with i show ?thesis by blast
qed

lemma markDirty_resident:
  assumes "wf_pool bm" "i < nframes bm" "pageNum (frames bm ! i) = ph_pageNum h" "ph_pageNum h \<noteq> NO_PAGE"
  shows "markDirty bm h =
           Some (RC_OK, bm\<lparr>frames := (frames bm)[i := (frames bm ! i)\<lparr>dirtyFlag := True\<rparr>]\<rparr>)"
  using findPage_unique [OF assms] by (simp add: markDirty_def Let_def)

lemma markDirty_absent:
  assumes "wf_pool bm" "\<forall>k < nframes bm. pageNum (frames bm ! k) \<noteq> ph_pageNum h"
  shows "markDirty bm h = Some (RC_OK, bm)"
  by (cases rule: findPage_wf [OF assms(1), of "ph_pageNum h"]) (use assms in \<open>auto simp: markDirty_def Let_def\<close>)

lemma unpinPage_resident:
  assumes "wf_pool bm" "i < nframes bm" "pageNum (frames bm ! i) = ph_pageNum h" "ph_pageNum h \<noteq> NO_PAGE"
  shows "unpinPage bm h =
           Some (RC_OK, bm\<lparr>frames := (frames bm)[i := (frames bm ! i)\<lparr>fixCount := fixCount (frames bm ! i) - 1\<rparr>]\<rparr>)"
  using findPage_unique [OF assms] by (simp add: unpinPage_def Let_def)

lemma unpinPage_absent:
  assumes "wf_pool bm" "\<forall>k < nframes bm. pageNum (frames bm ! k) \<noteq> ph_pageNum h"
  shows "unpinPage bm h = Some (RC_OK, bm)"
  by (cases rule: findPage_wf [OF assms(1), of "ph_pageNum h"]) (use assms in \<open>auto simp: unpinPage_def Let_def\<close>)

lemma wf_markDirty:
  assumes wf: "wf_pool bm"
  shows "\<exists>bm'. markDirty bm h = Some (RC_OK, bm') \<and> wf_pool bm'"
  by (cases rule: findPage_wf [OF wf, of "ph_pageNum h"]) (use wf in \<open>auto simp: markDirty_def Let_def wf_frames_update\<close>)

lemma wf_unpinPage:
  assumes wf: "wf_pool bm"
  shows "\<exists>bm'. unpinPage bm h = Some (RC_OK, bm') \<and> wf_pool bm'"
  by (cases rule: findPage_wf [OF wf, of "ph_pageNum h"]) (use wf in \<open>auto simp: unpinPage_def Let_def wf_frames_update\<close>)

lemma wf_forcePage:
  assumes wf: "wf_pool bm"
  shows "\<exists>rc bm'. forcePage bm h = Some (rc, bm') \<and> wf_pool bm'"
proof -
  from wf have n: "0 < nframes bm" "head bm < nframes bm" by (simp_all add: wf_pool_def)
  show ?thesis
  proof (cases rule: victimScan_wf [OF n(1) n(2) n(2),
           of "\<lambda>i. pageNum (frames bm ! i) = ph_pageNum h \<and> dirtyFlag (frames bm ! i)"])
    case (1 i)
    have "wf_pool (bm\<lparr>frames := (frames bm)[i := (frames bm ! i)\<lparr>dirtyFlag := False\<rparr>]\<rparr>)"
      using wf by (simp add: wf_frames_update)
    then have "wf_pool (bm\<lparr>pageFile := f, numWrite := w,
                 frames := (frames bm)[i := (frames bm ! i)\<lparr>dirtyFlag := False\<rparr>]\<rparr>)" for f w
      by (simp add: wf_pool_def)
    with 1 wf show ?thesis by (auto simp: forcePage_def Let_def split: sum.splits)
  next
    case 2
    with wf show ?thesis by (simp add: forcePage_def Let_def)
  qed
qed

lemma flushFrames_shape:
  "flushFrames is bm = (rc, bm') \<Longrightarrow> same_shape bm bm' \<and> numRead bm' = numRead bm \<and>
     numWrite bm \<le> numWrite bm'"
proof (induction "is" arbitrary: bm)
  case Nil
  then show ?case by (simp add: same_shape_refl)
next
  case (Cons i "is")
  show ?case
  proof (cases "dirtyFlag (frames bm ! i) \<and> fixCount (frames bm ! i) = 0")
    case True
    show ?thesis
    proof (cases "writeBlock (pageNum (frames bm ! i)) (data (frames bm ! i)) (pageFile bm)")
      case (Inl e)
      with True Cons.prems show ?thesis by (simp add: same_shape_refl)
    next
      case (Inr f)
      with True Cons.prems Cons.IH show ?thesis
        by (fastforce simp: same_shape_def)
    qed
  next
    case False
    with Cons.prems Cons.IH show ?thesis by simp
  qed
qed

lemma wf_forceFlushPool:
  "wf_pool bm \<Longrightarrow> forceFlushPool bm = (rc, bm') \<Longrightarrow> wf_pool bm'"
  unfolding forceFlushPool_def using flushFrames_shape wf_pool_same_shape by blast


end
