(* ===== verification/Buffer_Run.thy ===== *)
theory Buffer_Run
  imports Buffer_Pool
begin

text \<open>
  A consumer of the pool (the record and index managers, the tests) as a
  sequence of calls on one page handle: pin a page, unpin, mark dirty or force
  a page by number, flush the pool, or write bytes through the handle's
  \<^verbatim>\<open>data\<close> pointer. The run of a sequence, and the facts that hold along
  any run: the invariant, termination, and the I/O counters.
\<close>

section \<open>Consumer operations\<close>

datatype bm_op = Pin int | Unpin int | MarkDirty int | Force int | Flush | Write page

text \<open>A consumer writing through \<^verbatim>\<open>page->data\<close>: the buffer of the frame the
  handle points to is overwritten.\<close>

definition clientWrite :: "BM_BufferPool \<Rightarrow> BM_PageHandle \<Rightarrow> page \<Rightarrow> BM_BufferPool" where
  "clientWrite bm page d =
     (case ph_data page of
        None \<Rightarrow> bm
      | Some i \<Rightarrow> bm\<lparr>frames := (frames bm)[i := (frames bm ! i)\<lparr>data := d\<rparr>]\<rparr>)"

text \<open>\<^verbatim>\<open>unpinPage\<close>, \<^verbatim>\<open>markDirty\<close> and \<^verbatim>\<open>forcePage\<close> read only
  \<^verbatim>\<open>page->pageNum\<close>; the consumer sets it to the page it means.\<close>

fun bm_step :: "BM_BufferPool \<times> BM_PageHandle \<Rightarrow> bm_op \<Rightarrow> (BM_BufferPool \<times> BM_PageHandle) option" where
  "bm_step (bm, h) (Pin p) = map_option (\<lambda>(_, bm', h'). (bm', h')) (pinPage bm h p)"
| "bm_step (bm, h) (Unpin p) = map_option (\<lambda>(_, bm'). (bm', h)) (unpinPage bm (h\<lparr>ph_pageNum := p\<rparr>))"
| "bm_step (bm, h) (MarkDirty p) = map_option (\<lambda>(_, bm'). (bm', h)) (markDirty bm (h\<lparr>ph_pageNum := p\<rparr>))"
| "bm_step (bm, h) (Force p) = map_option (\<lambda>(_, bm'). (bm', h)) (forcePage bm (h\<lparr>ph_pageNum := p\<rparr>))"
| "bm_step (bm, h) Flush = Some (snd (forceFlushPool bm), h)"
| "bm_step (bm, h) (Write d) = Some (clientWrite bm h d, h)"

fun bm_run :: "BM_BufferPool \<times> BM_PageHandle \<Rightarrow> bm_op list \<Rightarrow> (BM_BufferPool \<times> BM_PageHandle) option" where
  "bm_run s [] = Some s"
| "bm_run s (op # ops) = (case bm_step s op of None \<Rightarrow> None | Some s' \<Rightarrow> bm_run s' ops)"

text \<open>One step performs at most one block read and at most one block write.\<close>

definition io_step :: "BM_BufferPool \<Rightarrow> BM_BufferPool \<Rightarrow> bool" where
  "io_step bm bm' \<longleftrightarrow>
     numRead bm \<le> numRead bm' \<and> numRead bm' \<le> numRead bm + 1 \<and>
     numWrite bm \<le> numWrite bm' \<and> numWrite bm' \<le> numWrite bm + 1"

text \<open>A handle that points nowhere yet, as \<^verbatim>\<open>MAKE_PAGE_HANDLE\<close> leaves it.\<close>

definition noHandle :: BM_PageHandle where
  "noHandle = \<lparr>ph_pageNum = NO_PAGE, ph_data = None\<rparr>"

text \<open>What every consumer step guarantees: the invariant holds after it, and
  the counters have not decreased.\<close>

definition step_ok :: "BM_BufferPool \<Rightarrow> BM_BufferPool \<Rightarrow> bool" where
  "step_ok bm bm' \<longleftrightarrow> wf_pool bm' \<and> numRead bm \<le> numRead bm' \<and> numWrite bm \<le> numWrite bm'"

section \<open>Pins and I/O\<close>

lemma io_loadPage:
  "loadPage bm h p i = (rc, bm', h') \<Longrightarrow> numWrite bm' = numWrite bm \<and> numRead bm \<le> numRead bm' \<and> numRead bm' \<le> numRead bm + 1"
  using loadPage_shape by blast

lemma io_writeBackVictim:
  "numRead (snd (writeBackVictim bm i)) = numRead bm"
  "numWrite bm \<le> numWrite (snd (writeBackVictim bm i))"
  "numWrite (snd (writeBackVictim bm i)) \<le> numWrite bm + 1"
  "numWrite bm \<le> numWrite (snd (writeBackVictim (bm\<lparr>frames := fs\<rparr>) i))"
  "numWrite (snd (writeBackVictim (bm\<lparr>frames := fs\<rparr>) i)) \<le> numWrite bm + 1"
  using writeBackVictim_shape [OF prod.collapse [symmetric], of bm i]
    writeBackVictim_shape [OF prod.collapse [symmetric], of "bm\<lparr>frames := fs\<rparr>" i] by simp_all

lemma io_pinPageFIFO:
  "pinPageFIFO bm h p = Some (rc, bm', h') \<Longrightarrow> io_step bm bm'"
  by (auto simp: pinPageFIFO_def Let_def split_def io_step_def pinHit_def fillFrame_def
           io_writeBackVictim dest!: io_loadPage
           split: option.splits scan.splits if_splits)

lemma io_pinPageLRU:
  "pinPageLRU bm h p = Some (rc, bm', h') \<Longrightarrow> io_step bm bm'"
  by (auto simp: pinPageLRU_def Let_def split_def io_step_def pinHit_def fillFrame_def
           io_writeBackVictim dest!: io_loadPage
           split: option.splits scan.splits if_splits)

lemma io_pinPageCLOCK:
  "pinPageCLOCK bm h p = Some (rc, bm', h') \<Longrightarrow> io_step bm bm'"
  by (auto simp: pinPageCLOCK_def Let_def split_def io_step_def pinHit_def fillFrame_def
           io_writeBackVictim dest!: io_loadPage
           split: option.splits scan.splits if_splits)

lemma io_pinPage:
  "pinPage bm h p = Some (rc, bm', h') \<Longrightarrow> io_step bm bm'"
  by (cases "strategy bm")
     (auto simp: pinPage_def dest: io_pinPageFIFO io_pinPageLRU io_pinPageCLOCK)

section \<open>Steps and runs\<close>

lemma wf_initBufferPool: "0 < n \<Longrightarrow> wf_pool (initBufferPool file n s)"
  by (simp add: wf_pool_def initBufferPool_def createPageFrame_pow newFrame_def
      distinct_pages_def nth_Cons' NO_PAGE_def)

lemma wf_clientWrite: "wf_pool bm \<Longrightarrow> wf_pool (clientWrite bm h d)"
  by (simp add: clientWrite_def wf_frames_update split: option.splits)

lemma bm_step_ok:
  assumes wf: "wf_pool bm"
  shows "\<exists>bm' h'. bm_step (bm, h) op = Some (bm', h') \<and> step_ok bm bm'"
proof (cases op)
  case (Pin p)
  obtain rc bm' h' where r: "pinPage bm h p = Some (rc, bm', h')"
    using pinPage_Some [OF wf, of h p] by (metis prod_cases3)
  with wf show ?thesis using Pin wf_pinPage_strategy [OF wf r] io_pinPage [OF r]
    by (auto simp: step_ok_def io_step_def)
next
  case (Unpin p)
  then show ?thesis using wf_unpinPage [OF wf, of "h\<lparr>ph_pageNum := p\<rparr>"]
    by (auto simp: step_ok_def unpinPage_def Let_def split: option.splits scan.splits)
next
  case (MarkDirty p)
  then show ?thesis using wf_markDirty [OF wf, of "h\<lparr>ph_pageNum := p\<rparr>"]
    by (auto simp: step_ok_def markDirty_def Let_def split: option.splits scan.splits)
next
  case (Force p)
  obtain rc bm' where r: "forcePage bm (h\<lparr>ph_pageNum := p\<rparr>) = Some (rc, bm')" "wf_pool bm'"
    using wf_forcePage [OF wf] by blast
  moreover have "numRead bm' = numRead bm \<and> numWrite bm \<le> numWrite bm'"
    using r(1) by (auto simp: forcePage_def Let_def split: option.splits scan.splits sum.splits)
  ultimately show ?thesis using Force by (auto simp: step_ok_def)
next
  case Flush
  obtain rc bm' where r: "forceFlushPool bm = (rc, bm')" by fastforce
  then show ?thesis using Flush wf_forceFlushPool [OF wf r] flushFrames_shape
    by (auto simp: step_ok_def forceFlushPool_def)
next
  case (Write d)
  then show ?thesis using wf_clientWrite [OF wf]
    by (auto simp: step_ok_def clientWrite_def split: option.splits)
qed

lemma bm_run_ok:
  "wf_pool bm \<Longrightarrow> \<exists>bm' h'. bm_run (bm, h) ops = Some (bm', h') \<and>
     (wf_pool bm' \<and> numRead bm \<le> numRead bm' \<and> numWrite bm \<le> numWrite bm')"
proof (induction ops arbitrary: bm h)
  case Nil
  then show ?case by simp
next
  case (Cons op ops)
  obtain bm1 h1 where s: "bm_step (bm, h) op = Some (bm1, h1)" and ok: "step_ok bm bm1"
    using bm_step_ok [OF Cons.prems] by blast
  from ok have "wf_pool bm1" by (simp add: step_ok_def)
  from Cons.IH [OF this, of h1] obtain bm' h' where
    "bm_run (bm1, h1) ops = Some (bm', h')" "wf_pool bm'"
    "numRead bm1 \<le> numRead bm'" "numWrite bm1 \<le> numWrite bm'" by blast
  with s ok show ?case by (auto simp: step_ok_def)
qed

end
