(* ===== verification/Buffer_Api.thy ===== *)
theory Buffer_Api
  imports Buffer_Run
begin

text \<open>
  The pool as its consumers see it: the statistics functions read the frames
  in ring order, \<^verbatim>\<open>markDirty\<close> and \<^verbatim>\<open>unpinPage\<close> act on every frame
  holding the page (there is at most one), \<^verbatim>\<open>forcePage\<close> writes the one
  dirty frame holding the page back to its block, and \<^verbatim>\<open>forceFlushPool\<close>
  cleans exactly the dirty frames that are not pinned.
\<close>

section \<open>The pool seen through its statistics and handles\<close>

lemma getFrameContents_wf:
  "wf_pool bm \<Longrightarrow> getFrameContents bm = map pageNum (frames bm)"
  unfolding getFrameContents_def wf_pool_def by (intro nth_equalityI) auto

lemma getFixCounts_wf:
  "wf_pool bm \<Longrightarrow> getFixCounts bm = map fixCount (frames bm)"
  unfolding getFixCounts_def wf_pool_def by (intro nth_equalityI) auto

lemma getDirtyFlags_wf:
  "wf_pool bm \<Longrightarrow> getDirtyFlags bm = map dirtyFlag (frames bm)"
  unfolding getDirtyFlags_def wf_pool_def by (intro nth_equalityI) auto

lemma distinct_pages_Cons:
  "distinct_pages (x # xs) \<longleftrightarrow> distinct_pages xs \<and> (x \<noteq> NO_PAGE \<longrightarrow> x \<notin> set xs)"
proof
  assume d: "distinct_pages (x # xs)"
  have "distinct_pages xs"
    unfolding distinct_pages_def
  proof (intro allI impI)
    fix i j assume "i < length xs" "j < length xs" "i \<noteq> j" "xs ! i = xs ! j"
    with d show "xs ! i = NO_PAGE"
      unfolding distinct_pages_def by (metis Suc_inject length_Cons nth_Cons_Suc Suc_mono)
  qed
  moreover have "x \<noteq> NO_PAGE \<longrightarrow> x \<notin> set xs"
  proof (intro impI notI)
    assume "x \<noteq> NO_PAGE" "x \<in> set xs"
    then obtain j where "j < length xs" "xs ! j = x" by (auto simp: in_set_conv_nth)
    with d \<open>x \<noteq> NO_PAGE\<close> show False
      unfolding distinct_pages_def by (metis Suc_mono length_Cons nth_Cons_0 nth_Cons_Suc zero_less_Suc nat.distinct(1))
  qed
  ultimately show "distinct_pages xs \<and> (x \<noteq> NO_PAGE \<longrightarrow> x \<notin> set xs)" ..
next
  assume a: "distinct_pages xs \<and> (x \<noteq> NO_PAGE \<longrightarrow> x \<notin> set xs)"
  show "distinct_pages (x # xs)"
    unfolding distinct_pages_def
  proof (intro allI impI)
    fix i j assume ij: "i < length (x # xs)" "j < length (x # xs)" "i \<noteq> j" "(x # xs) ! i = (x # xs) ! j"
    show "(x # xs) ! i = NO_PAGE"
    proof (cases i)
      case 0
      with ij obtain j' where "j = Suc j'" "j' < length xs" "xs ! j' = x" by (cases j) auto
      with a 0 show ?thesis by (auto simp: in_set_conv_nth)
    next
      case (Suc i')
      show ?thesis
      proof (cases j)
        case 0
        with ij Suc a show ?thesis by (auto simp: in_set_conv_nth)
      next
        case (Suc j')
        with ij \<open>i = Suc i'\<close> a show ?thesis by (simp add: distinct_pages_def)
      qed
    qed
  qed
qed

lemma distinct_pages_filter:
  "distinct_pages ps \<Longrightarrow> distinct (filter (\<lambda>q. q \<noteq> NO_PAGE) ps)"
  by (induction ps) (auto simp: distinct_pages_Cons)

lemma markDirty_map:
  assumes wf: "wf_pool bm" and p: "ph_pageNum h \<noteq> NO_PAGE"
  shows "markDirty bm h = Some (RC_OK, bm\<lparr>frames := map (\<lambda>f. if pageNum f = ph_pageNum h
                                   then f\<lparr>dirtyFlag := True\<rparr> else f) (frames bm)\<rparr>)"
proof (cases rule: findPage_wf [OF wf, of "ph_pageNum h"])
  case (1 i)
  have "(frames bm)[i := (frames bm ! i)\<lparr>dirtyFlag := True\<rparr>] =
        map (\<lambda>f. if pageNum f = ph_pageNum h then f\<lparr>dirtyFlag := True\<rparr> else f) (frames bm)"
  proof (rule nth_equalityI)
    fix k assume k: "k < length ((frames bm)[i := (frames bm ! i)\<lparr>dirtyFlag := True\<rparr>])"
    have "k \<noteq> i \<Longrightarrow> pageNum (frames bm ! k) \<noteq> ph_pageNum h"
      using wf 1 k p unfolding wf_pool_def distinct_pages_def by (metis length_list_update length_map nth_map)
    with 1 k show "(frames bm)[i := (frames bm ! i)\<lparr>dirtyFlag := True\<rparr>] ! k =
        map (\<lambda>f. if pageNum f = ph_pageNum h then f\<lparr>dirtyFlag := True\<rparr> else f) (frames bm) ! k"
      by (auto simp: nth_list_update)
  qed simp
  with markDirty_resident [OF wf 1(2,3) p] show ?thesis by simp
next
  case 2
  then have "map (\<lambda>f. if pageNum f = ph_pageNum h then f\<lparr>dirtyFlag := True\<rparr> else f) (frames bm) = frames bm"
    by (auto intro!: map_idI simp: in_set_conv_nth)
  with markDirty_absent [OF wf 2(2)] show ?thesis by simp
qed

lemma unpinPage_map:
  assumes wf: "wf_pool bm" and p: "ph_pageNum h \<noteq> NO_PAGE"
  shows "unpinPage bm h = Some (RC_OK, bm\<lparr>frames := map (\<lambda>f. if pageNum f = ph_pageNum h
                                   then f\<lparr>fixCount := fixCount f - 1\<rparr> else f) (frames bm)\<rparr>)"
proof (cases rule: findPage_wf [OF wf, of "ph_pageNum h"])
  case (1 i)
  have "(frames bm)[i := (frames bm ! i)\<lparr>fixCount := fixCount (frames bm ! i) - 1\<rparr>] =
        map (\<lambda>f. if pageNum f = ph_pageNum h then f\<lparr>fixCount := fixCount f - 1\<rparr> else f) (frames bm)"
  proof (rule nth_equalityI)
    fix k assume k: "k < length ((frames bm)[i := (frames bm ! i)\<lparr>fixCount := fixCount (frames bm ! i) - 1\<rparr>])"
    have "k \<noteq> i \<Longrightarrow> pageNum (frames bm ! k) \<noteq> ph_pageNum h"
      using wf 1 k p unfolding wf_pool_def distinct_pages_def by (metis length_list_update length_map nth_map)
    with 1 k show "(frames bm)[i := (frames bm ! i)\<lparr>fixCount := fixCount (frames bm ! i) - 1\<rparr>] ! k =
        map (\<lambda>f. if pageNum f = ph_pageNum h then f\<lparr>fixCount := fixCount f - 1\<rparr> else f) (frames bm) ! k"
      by (auto simp: nth_list_update)
  qed simp
  with unpinPage_resident [OF wf 1(2,3) p] show ?thesis by simp
next
  case 2
  then have "map (\<lambda>f. if pageNum f = ph_pageNum h then f\<lparr>fixCount := fixCount f - 1\<rparr> else f) (frames bm) = frames bm"
    by (auto intro!: map_idI simp: in_set_conv_nth)
  with unpinPage_absent [OF wf 2(2)] show ?thesis by simp
qed

section \<open>Forcing and flushing\<close>

lemma ringScan_unique:
  assumes "0 < n" "s < n" "i < n" "P i" "\<forall>k < n. P k \<longrightarrow> k = i"
  shows "ringScan P n s s = Some (Found i)"
proof -
  have w: "set (ring_walk n s s) = {..<n}" using set_ring_walk_full [OF assms(2)] .
  show ?thesis
  proof (cases "List.find P (ring_walk n s s)")
    case None
    then show ?thesis using find_None_not [OF None, of i] assms(3,4) w by simp
  next
    case (Some x)
    with w have "x < n" "P x" using find_Some_in_set by fastforce+
    with assms(5) have "x = i" by blast
    with Some show ?thesis using ringScan_eq [OF assms(1,2,2)] by simp
  qed
qed

lemma distinct_pages_nth:
  "distinct_pages (map pageNum fs) \<Longrightarrow> k < length fs \<Longrightarrow> i < length fs \<Longrightarrow> k \<noteq> i \<Longrightarrow>
     pageNum (fs ! k) = pageNum (fs ! i) \<Longrightarrow> pageNum (fs ! k) = NO_PAGE"
  by (simp add: distinct_pages_def)

lemma forcePage_dirty:
  assumes wf: "wf_pool bm" and i: "i < nframes bm" "pageNum (frames bm ! i) = ph_pageNum h"
      "dirtyFlag (frames bm ! i)" and p: "ph_pageNum h \<noteq> NO_PAGE"
  shows "forcePage bm h =
           Some (case writeBlock (ph_pageNum h) (data (frames bm ! i)) (pageFile bm) of
                   Inl _ \<Rightarrow> (RC_WRITE_FAILED, bm)
                 | Inr file \<Rightarrow> (RC_OK, bm\<lparr>pageFile := file, numWrite := numWrite bm + 1,
                     frames := (frames bm)[i := (frames bm ! i)\<lparr>dirtyFlag := False\<rparr>]\<rparr>))"
proof -
  have u: "\<forall>k < nframes bm. pageNum (frames bm ! k) = ph_pageNum h \<and> dirtyFlag (frames bm ! k) \<longrightarrow> k = i"
  proof (intro allI impI)
    fix k assume k: "k < nframes bm" "pageNum (frames bm ! k) = ph_pageNum h \<and> dirtyFlag (frames bm ! k)"
    show "k = i"
    proof (rule ccontr)
      assume "k \<noteq> i"
      with wf k i have "pageNum (frames bm ! k) = NO_PAGE"
        using distinct_pages_nth [of "frames bm" k i] by (simp add: wf_pool_def)
      with k p show False by simp
    qed
  qed
  have "ringScan (\<lambda>k. pageNum (frames bm ! k) = ph_pageNum h \<and> dirtyFlag (frames bm ! k))
          (nframes bm) (head bm) (head bm) = Some (Found i)"
  proof (rule ringScan_unique [OF _ _ i(1) _ u])
    show "0 < nframes bm" "head bm < nframes bm" using wf by (simp_all add: wf_pool_def)
  qed (use i in simp)
  with i show ?thesis by (simp add: forcePage_def Let_def split: sum.split)
qed

lemma forcePage_clean:
  assumes wf: "wf_pool bm" and c: "\<forall>k < nframes bm. pageNum (frames bm ! k) = ph_pageNum h \<longrightarrow> \<not> dirtyFlag (frames bm ! k)"
  shows "forcePage bm h = Some (RC_OK, bm)"
proof -
  from wf have n: "0 < nframes bm" "head bm < nframes bm" by (simp_all add: wf_pool_def)
  show ?thesis
  proof (cases rule: victimScan_wf [OF n(1) n(2) n(2),
           of "\<lambda>k. pageNum (frames bm ! k) = ph_pageNum h \<and> dirtyFlag (frames bm ! k)"])
    case (1 i)
    with c show ?thesis by blast
  next
    case 2
    then show ?thesis by (simp add: forcePage_def)
  qed
qed

lemma flushFrames_OK:
  "flushFrames is bm = (RC_OK, bm') \<Longrightarrow> \<forall>i \<in> set is. i < nframes bm \<Longrightarrow>
     nframes bm' = nframes bm \<and>
     (\<forall>k < nframes bm. fixCount (frames bm' ! k) = fixCount (frames bm ! k) \<and>
        (dirtyFlag (frames bm' ! k) \<longleftrightarrow>
           dirtyFlag (frames bm ! k) \<and> (k \<notin> set is \<or> fixCount (frames bm ! k) \<noteq> 0)))"
proof (induction "is" arbitrary: bm)
  case Nil
  then show ?case by simp
next
  case (Cons i "is")
  show ?case
  proof (cases "dirtyFlag (frames bm ! i) \<and> fixCount (frames bm ! i) = 0")
    case True
    then obtain f' where w: "writeBlock (pageNum (frames bm ! i)) (data (frames bm ! i)) (pageFile bm) = Inr f'"
      using Cons.prems(1) True by (cases "writeBlock (pageNum (frames bm ! i)) (data (frames bm ! i)) (pageFile bm)") (simp_all add: Let_def)
    let ?bm1 = "bm\<lparr>pageFile := f', frames := (frames bm)[i := (frames bm ! i)\<lparr>dirtyFlag := False\<rparr>],
                   numWrite := numWrite bm + 1\<rparr>"
    have r: "flushFrames is ?bm1 = (RC_OK, bm')" using Cons.prems(1) True w by simp
    have "\<forall>j \<in> set is. j < nframes ?bm1" using Cons.prems(2) by simp
    from Cons.IH [OF r this] True Cons.prems(2) show ?thesis
      by (auto simp: nth_list_update)
  next
    case False
    have r: "flushFrames is bm = (RC_OK, bm')"
      using Cons.prems(1) by (simp only: flushFrames.simps Let_def if_not_P [OF False])
    from Cons.IH [OF r] Cons.prems(2) False show ?thesis by auto
  qed
qed

lemma distinct_ring_walk_full: "s < n \<Longrightarrow> distinct (ring_walk n s s)"
  by (rule card_distinct) (simp add: set_ring_walk_full, simp add: ring_walk_def walk_len_def)

section \<open>Evaluation on concrete pools\<close>

text \<open>The equations that evaluate the operations on a concrete pool by the
  simplifier: the definitions, one unfolding of each loop, and the list
  facts that reduce numerals.\<close>

lemmas bm_eval = pinPage_def pinPageFIFO_def pinPageLRU_def pinPageCLOCK_def findPage_def
  ringScan.simps clockSweep.simps unpinPage_def markDirty_def forcePage_def Let_def
  fillFrame_def loadPage_def pinHit_def claimFrame_def writeBackVictim_def
  nxt_def prv_def readBlock_def writeBlock_def ensureCapacity_def NO_PAGE_def newFrame_def
  initBufferPool_def createPageFrame_pow createPageFrame_def getFrameContents_def getFixCounts_def
  getDirtyFlags_def clientWrite_def noHandle_def upt_rec replicate_numeral_Cons

lemma flushFrames_blocks:
  "distinct is \<Longrightarrow> \<forall>i \<in> set is. i < nframes bm \<Longrightarrow> distinct_pages (map pageNum (frames bm)) \<Longrightarrow>
   (\<forall>q. (\<forall>k \<in> set is. dirtyFlag (frames bm ! k) \<and> fixCount (frames bm ! k) = 0 \<longrightarrow> pageNum (frames bm ! k) \<noteq> q) \<longrightarrow>
        readBlock q (pageFile (snd (flushFrames is bm))) = readBlock q (pageFile bm)) \<and>
   (fst (flushFrames is bm) = RC_OK \<longrightarrow>
      (\<forall>k \<in> set is. dirtyFlag (frames bm ! k) \<and> fixCount (frames bm ! k) = 0 \<longrightarrow>
         readBlock (pageNum (frames bm ! k)) (pageFile (snd (flushFrames is bm))) = Inr (data (frames bm ! k))))"
proof (induction "is" arbitrary: bm)
  case Nil
  then show ?case by simp
next
  case (Cons i "is")
  let ?fr = "frames bm ! i"
  have i: "i < nframes bm" "i \<notin> set is" "distinct is" using Cons.prems(1,2) by auto
  show ?case
  proof (cases "dirtyFlag ?fr \<and> fixCount ?fr = 0")
    case True
    show ?thesis
    proof (cases "writeBlock (pageNum ?fr) (data ?fr) (pageFile bm)")
      case (Inl e)
      then show ?thesis using True
        by (auto simp: Let_def dest: writeBlock_Inl)
    next
      case (Inr f')
      let ?bm1 = "bm\<lparr>pageFile := f', frames := (frames bm)[i := ?fr\<lparr>dirtyFlag := False\<rparr>], numWrite := numWrite bm + 1\<rparr>"
      have fl: "flushFrames (i # is) bm = flushFrames is ?bm1" using True Inr by (simp add: Let_def)
      have same: "\<forall>k \<in> set is. frames ?bm1 ! k = frames bm ! k" using i(2) by (simp, metis nth_list_update_neq)
      have pn: "map pageNum (frames ?bm1) = map pageNum (frames bm)"
        by (simp add: map_update list_update_same_conv i(1))
      have ih: "(\<forall>q. (\<forall>k \<in> set is. dirtyFlag (frames bm ! k) \<and> fixCount (frames bm ! k) = 0 \<longrightarrow> pageNum (frames bm ! k) \<noteq> q) \<longrightarrow>
                 readBlock q (pageFile (snd (flushFrames is ?bm1))) = readBlock q f') \<and>
                (fst (flushFrames is ?bm1) = RC_OK \<longrightarrow>
                 (\<forall>k \<in> set is. dirtyFlag (frames bm ! k) \<and> fixCount (frames bm ! k) = 0 \<longrightarrow>
                   readBlock (pageNum (frames bm ! k)) (pageFile (snd (flushFrames is ?bm1))) = Inr (data (frames bm ! k))))"
        using Cons.IH [of ?bm1] i Cons.prems(2,3) pn same by simp
      have nn: "pageNum ?fr \<noteq> NO_PAGE"
        using Inr by (auto simp: writeBlock_def NO_PAGE_def split: if_splits)
      have apart: "\<forall>k \<in> set is. pageNum (frames bm ! k) \<noteq> pageNum ?fr"
        using distinct_pages_nth [OF Cons.prems(3), of _ i] Cons.prems(2) i(2) nn by fastforce
      have own: "readBlock (pageNum ?fr) (pageFile (snd (flushFrames is ?bm1))) = Inr (data ?fr)"
        using ih apart writeBlock_readBlock_same [OF Inr] by auto
      show ?thesis
        unfolding fl using ih own True writeBlock_readBlock_other [OF Inr] by auto
    qed
  next
    case False
    have fl: "flushFrames (i # is) bm = flushFrames is bm" using False by (auto simp: Let_def)
    show ?thesis unfolding fl using Cons.IH [of bm] i Cons.prems(2,3) False by auto
  qed
qed

lemma forceFlushPool_walk:
  assumes "wf_pool bm"
  shows "distinct (ring_walk (nframes bm) (head bm) (head bm)) \<and>
         set (ring_walk (nframes bm) (head bm) (head bm)) = {..<nframes bm}"
proof -
  have hd: "head bm < nframes bm" using assms by (simp add: wf_pool_def)
  show ?thesis using distinct_ring_walk_full [OF hd] set_ring_walk_full [OF hd] by auto
qed

end
