(* ===== verification/BTree_Mgr.thy ===== *)
theory BTree_Mgr
  imports Tables Buffer_Api "HOL-Library.Monad_Syntax" "HOL-Library.Multiset"
begin

text \<open>
  The index manager of \<^verbatim>\<open>src/btree_mgr.c\<close>. Despite its name it keeps no
  tree: the keys live in the global array \<^verbatim>\<open>AllocBTree\<close> of \<^verbatim>\<open>numOfKeys\<close>
  entries, in insertion order, each a key \<^verbatim>\<open>Value\<close> and a record id
  \<^verbatim>\<open>RID\<close>. \<^verbatim>\<open>findKey\<close>, \<^verbatim>\<open>insertKey\<close> and \<^verbatim>\<open>deleteKey\<close> scan the
  array linearly, \<^verbatim>\<open>openTreeScan\<close> selection-sorts it and \<^verbatim>\<open>nextEntry\<close>
  walks it with the global cursor \<^verbatim>\<open>scanNextEntry\<close>. Alongside, the tree
  handle owns a FIFO buffer pool on the index file whose pages the operations
  pin, mark dirty and unpin, and whose page-handle pointer is sometimes set to
  the string literals \<^verbatim>\<open>"NotFull"\<close> / \<^verbatim>\<open>"NodeFull"\<close>.
\<close>

unbundle bit_operations_syntax

section \<open>Data\<close>

text \<open>\<^verbatim>\<open>struct BTree\<close> plays two roles in the code: the entries of
  \<^verbatim>\<open>AllocBTree\<close> use its \<^verbatim>\<open>value\<close> (\<open>kvalue\<close> here, \<open>value\<close> being a keyword) and \<^verbatim>\<open>rid\<close> fields, the tree's
  management data its \<^verbatim>\<open>bm\<close>, \<^verbatim>\<open>ph\<close>, \<^verbatim>\<open>maxNumOfKeysPerNode\<close> and
  \<^verbatim>\<open>nodeCounter\<close> fields. They are two records here. \<open>phLit\<close> is
  \<open>Some s\<close> while \<^verbatim>\<open>ph->data\<close> points at the string literal \<open>s\<close>, and
  \<open>None\<close> while it points into the frame the handle names.\<close>

record KeyEntry =
  kvalue :: Value
  rid :: RID

record TreeInfo =
  tbm :: BM_BufferPool
  tph :: BM_PageHandle
  phLit :: "string option"
  maxNumOfKeysPerNode :: int
  nodeCounter :: int

text \<open>The globals \<^verbatim>\<open>AllocBTree\<close> (its first \<^verbatim>\<open>numOfKeys\<close> entries) and
  \<^verbatim>\<open>scanNextEntry\<close>.\<close>

record BTreeMgr =
  AllocBTree :: "KeyEntry list"
  scanNextEntry :: int

abbreviation numOfKeys :: "BTreeMgr \<Rightarrow> nat" where
  "numOfKeys st \<equiv> length (AllocBTree st)"

text \<open>\<^verbatim>\<open>strcmp(p, s) == 0\<close> for a buffer \<open>p\<close> holding a NUL-terminated string.\<close>

definition cstr_eq :: "byte list \<Rightarrow> string \<Rightarrow> bool" where
  "cstr_eq bs s \<longleftrightarrow> takeWhile (\<lambda>b. b \<noteq> 0) bs = map of_char s"

section \<open>Calls on the tree's buffer pool\<close>

text \<open>\<^verbatim>\<open>pinPage(treeInfo->bm, treeInfo->ph, p)\<close>: the pool changes as
  \<^verbatim>\<open>pinPage\<close> says; \<^verbatim>\<open>ph->data\<close> is set to the frame only when the strategy
  routine succeeds, otherwise it keeps pointing where it did.\<close>

definition tree_pin :: "TreeInfo \<Rightarrow> int \<Rightarrow> TreeInfo option" where
  "tree_pin ti p =
     map_option (\<lambda>(rc, bm', h'). ti\<lparr>tbm := bm', tph := h',
                                    phLit := (if rc = RC_OK then None else phLit ti)\<rparr>)
       (case strategy (tbm ti) of
          RS_FIFO \<Rightarrow> pinPageFIFO (tbm ti) (tph ti) p
        | RS_LRU \<Rightarrow> pinPageLRU (tbm ti) (tph ti) p
        | RS_CLOCK \<Rightarrow> pinPageCLOCK (tbm ti) (tph ti) p)"

definition tree_markDirty :: "TreeInfo \<Rightarrow> TreeInfo option" where
  "tree_markDirty ti = map_option (\<lambda>(_, bm'). ti\<lparr>tbm := bm'\<rparr>) (markDirty (tbm ti) (tph ti))"

definition tree_unpin :: "TreeInfo \<Rightarrow> TreeInfo option" where
  "tree_unpin ti = map_option (\<lambda>(_, bm'). ti\<lparr>tbm := bm'\<rparr>) (unpinPage (tbm ti) (tph ti))"

text \<open>\<^verbatim>\<open>!strcmp(treeInfo->ph->data, "NodeFull")\<close>.\<close>

definition nodeFull :: "TreeInfo \<Rightarrow> bool" where
  "nodeFull ti =
     (case phLit ti of
        Some s \<Rightarrow> s = ''NodeFull''
      | None \<Rightarrow> (case ph_data (tph ti) of
                  Some i \<Rightarrow> cstr_eq (data (frames (tbm ti) ! i)) ''NodeFull''
                | None \<Rightarrow> False))"

section \<open>Keys\<close>

text \<open>The comparison in the \<^verbatim>\<open>switch(key->dt)\<close> of the scans; a
  \<^verbatim>\<open>DT_BOOL\<close> key reaches the \<^verbatim>\<open>default\<close> branch, which returns
  \<open>RC_RM_NO_PRINT_FOR_DATATYPE\<close>.\<close>

definition validKey :: "Value \<Rightarrow> bool" where
  "validKey key \<longleftrightarrow> dt key \<noteq> DT_BOOL"

definition keyEq :: "Value \<Rightarrow> Value \<Rightarrow> bool" where
  "keyEq v key =
     (case dt key of
        DT_INT \<Rightarrow> dt v = dt key \<and> intV v = intV key
      | DT_FLOAT \<Rightarrow> dt v = dt key \<and> floatV v = floatV key
      | DT_STRING \<Rightarrow> dt v = dt key \<and> stringV v = stringV key
      | DT_BOOL \<Rightarrow> False)"

text \<open>The index of the first entry equal to the key.\<close>

fun firstMatch :: "Value \<Rightarrow> KeyEntry list \<Rightarrow> nat option" where
  "firstMatch key [] = None"
| "firstMatch key (e # es) = (if keyEq (kvalue e) key then Some 0 else map_option Suc (firstMatch key es))"

text \<open>The store into a freshly \<^verbatim>\<open>malloc\<close>ed entry \<open>fresh\<close> (whose other
  fields hold whatever the allocator left): the key's type and one member of
  the union, then the record id. For a \<^verbatim>\<open>DT_STRING\<close> key the code copies
  \<^verbatim>\<open>intV\<close>, not \<^verbatim>\<open>stringV\<close>.\<close>

definition storeKey :: "KeyEntry \<Rightarrow> Value \<Rightarrow> RID \<Rightarrow> KeyEntry option" where
  "storeKey fresh key r =
     (case dt key of
        DT_INT \<Rightarrow> Some (fresh\<lparr>kvalue := (kvalue fresh)\<lparr>dt := dt key, intV := intV key\<rparr>, rid := r\<rparr>)
      | DT_FLOAT \<Rightarrow> Some (fresh\<lparr>kvalue := (kvalue fresh)\<lparr>dt := dt key, floatV := floatV key\<rparr>, rid := r\<rparr>)
      | DT_STRING \<Rightarrow> Some (fresh\<lparr>kvalue := (kvalue fresh)\<lparr>dt := dt key, intV := intV key\<rparr>, rid := r\<rparr>)
      | DT_BOOL \<Rightarrow> None)"

section \<open>Index access\<close>

text \<open>\<^verbatim>\<open>findKey\<close>: the first entry equal to the key; the \<^verbatim>\<open>default\<close> branch
  is only reached inside the loop, so on an empty array any key is
  \<open>RC_IM_KEY_NOT_FOUND\<close>.\<close>

fun findKeyLoop :: "Value \<Rightarrow> KeyEntry list \<Rightarrow> RC + RID" where
  "findKeyLoop key [] = Inl RC_IM_KEY_NOT_FOUND"
| "findKeyLoop key (e # es) =
     (if \<not> validKey key then Inl RC_RM_NO_PRINT_FOR_DATATYPE
      else if keyEq (kvalue e) key then Inr (rid e)
      else findKeyLoop key es)"

definition findKey :: "BTreeMgr \<Rightarrow> Value \<Rightarrow> RC + RID" where
  "findKey st key = findKeyLoop key (AllocBTree st)"

text \<open>\<^verbatim>\<open>insertKey\<close>. The first key goes into node page 0; later keys are
  checked for duplicates and go into page \<^verbatim>\<open>nodeCounter\<close>, or the next page
  when that one reads as \<^verbatim>\<open>"NodeFull"\<close>.\<close>

definition insertKey ::
  "TreeInfo \<Rightarrow> BTreeMgr \<Rightarrow> KeyEntry \<Rightarrow> Value \<Rightarrow> RID \<Rightarrow> (RC \<times> TreeInfo \<times> BTreeMgr) option" where
  "insertKey ti st fresh key r =
     (let es = AllocBTree st in
      if es = [] then
        do { ti1 \<leftarrow> tree_pin ti 0;
             ti2 \<leftarrow> tree_markDirty ti1;
             let ti3 = ti2\<lparr>phLit := Some ''NotFull''\<rparr>;
             (case storeKey fresh key r of
                None \<Rightarrow> Some (RC_RM_NO_PRINT_FOR_DATATYPE, ti3, st)
              | Some e \<Rightarrow> do { ti4 \<leftarrow> tree_unpin ti3;
                               Some (RC_OK, ti4, st\<lparr>AllocBTree := es @ [e]\<rparr>) }) }
      else if \<not> validKey key then Some (RC_RM_NO_PRINT_FOR_DATATYPE, ti, st)
      else if list_ex (\<lambda>e. keyEq (kvalue e) key) es then Some (RC_IM_KEY_ALREADY_EXISTS, ti, st)
      else
        do { ti1 \<leftarrow> tree_pin ti (nodeCounter ti);
             ti2 \<leftarrow> tree_markDirty ti1;
             if nodeFull ti2 then
               do { ti3 \<leftarrow> tree_unpin (ti2\<lparr>nodeCounter := nodeCounter ti2 + 1\<rparr>);
                    ti4 \<leftarrow> tree_pin ti3 (nodeCounter ti3);
                    (case storeKey fresh key r of
                       None \<Rightarrow> Some (RC_RM_NO_PRINT_FOR_DATATYPE, ti4, st)
                     | Some e \<Rightarrow> do { ti5 \<leftarrow> tree_unpin (ti4\<lparr>phLit := Some ''NotFull''\<rparr>);
                                      Some (RC_OK, ti5, st\<lparr>AllocBTree := es @ [e]\<rparr>) }) }
             else
               (case storeKey fresh key r of
                  None \<Rightarrow> Some (RC_RM_NO_PRINT_FOR_DATATYPE, ti2, st)
                | Some e \<Rightarrow> do { ti3 \<leftarrow> tree_unpin (ti2\<lparr>phLit := Some ''NodeFull''\<rparr>);
                                 Some (RC_OK, ti3, st\<lparr>AllocBTree := es @ [e]\<rparr>) }) })"

text \<open>The shift loop of \<^verbatim>\<open>deleteKey\<close>: each entry takes the key type, the
  union member named by the next entry's type and the record id of the next
  entry. For a \<^verbatim>\<open>DT_STRING\<close> the code \<^verbatim>\<open>strcpy\<close>s into the entry's own
  buffer, so its \<^verbatim>\<open>stringV\<close> pointer stays; a \<^verbatim>\<open>DT_BOOL\<close> value is not
  copied at all.\<close>

definition copyEntry :: "KeyEntry \<Rightarrow> KeyEntry \<Rightarrow> KeyEntry" where
  "copyEntry dst src =
     (let v = kvalue dst; w = kvalue src in
      dst\<lparr>kvalue := (case dt w of
                       DT_INT \<Rightarrow> v\<lparr>dt := dt w, intV := intV w\<rparr>
                     | DT_FLOAT \<Rightarrow> v\<lparr>dt := dt w, floatV := floatV w\<rparr>
                     | DT_STRING \<Rightarrow> v\<lparr>dt := dt w\<rparr>
                     | DT_BOOL \<Rightarrow> v),
          rid := rid src\<rparr>)"

fun shiftDown :: "KeyEntry list \<Rightarrow> KeyEntry list" where
  "shiftDown (a # b # rest) = copyEntry a b # shiftDown (b # rest)"
| "shiftDown _ = []"

text \<open>\<^verbatim>\<open>deleteKey\<close>: the \<^verbatim>\<open>if (i == numOfKeys)\<close> test sits inside the loop,
  where it never holds, so a key that is not found gives \<open>RC_OK\<close>.\<close>

definition deleteKey :: "TreeInfo \<Rightarrow> BTreeMgr \<Rightarrow> Value \<Rightarrow> (RC \<times> TreeInfo \<times> BTreeMgr) option" where
  "deleteKey ti st key =
     (let es = AllocBTree st in
      if es \<noteq> [] \<and> \<not> validKey key then Some (RC_RM_NO_PRINT_FOR_DATATYPE, ti, st)
      else
        (case firstMatch key es of
           None \<Rightarrow> Some (RC_OK, ti, st)
         | Some i \<Rightarrow>
             do { ti1 \<leftarrow> tree_pin ti (int i div 2);
                  ti2 \<leftarrow> tree_markDirty (ti1\<lparr>phLit := Some ''NotFull''\<rparr>);
                  ti3 \<leftarrow> tree_unpin ti2;
                  Some (RC_OK, ti3, st\<lparr>AllocBTree := take i es @ shiftDown (drop i es)\<rparr>) }))"

section \<open>Scans\<close>

text \<open>The inner loop of the selection sort: the index of the first smallest
  key among positions \<open>j, j+1, \<dots>\<close>, starting from candidate \<open>m\<close>.\<close>

function minIdx :: "(KeyEntry \<Rightarrow> 'k::linorder) \<Rightarrow> KeyEntry list \<Rightarrow> nat \<Rightarrow> nat \<Rightarrow> nat" where
  "minIdx f es m j = (if j < length es then minIdx f es (if f (es ! j) < f (es ! m) then j else m) (Suc j) else m)"
  by pat_completeness auto
termination
  by (relation "measure (\<lambda>(f, es, m, j). length es - j)") auto

declare minIdx.simps [simp del]

text \<open>The outer loop: for \<open>i = 0, \<dots>, numOfKeys - 2\<close> swap entry \<open>i\<close> with
  the smallest of the rest.\<close>

function selSort :: "(KeyEntry \<Rightarrow> 'k::linorder) \<Rightarrow> KeyEntry list \<Rightarrow> nat \<Rightarrow> KeyEntry list" where
  "selSort f es i =
     (if Suc i < length es then
        (let m = minIdx f es i (Suc i) in selSort f (es[m := es ! i, i := es ! m]) (Suc i))
      else es)"
  by pat_completeness auto
termination
  by (relation "measure (\<lambda>(f, es, i). length es - i)") auto

declare selSort.simps [simp del]

text \<open>\<^verbatim>\<open>openTreeScan\<close>: the sort key is chosen by the type of entry 0 and
  read from the same union member of every entry; other types are not
  sorted. \<^verbatim>\<open>scanNextEntry\<close> is not reset. On an empty index the
  \<^verbatim>\<open>switch\<close> reads the type through \<^verbatim>\<open>AllocBTree[0]\<close>, a pointer
  that was never set (or was freed by a delete); that read is undefined and
  is not modelled: the model takes the run in which it does not crash, where
  no loop body runs because \<^verbatim>\<open>numOfKeys - 1 = -1\<close>.\<close>

definition openTreeScan :: "BTreeMgr \<Rightarrow> BTreeMgr" where
  "openTreeScan st =
     (case AllocBTree st of
        [] \<Rightarrow> st
      | e # _ \<Rightarrow> (case dt (kvalue e) of
                   DT_INT \<Rightarrow> st\<lparr>AllocBTree := selSort (intV \<circ> kvalue) (AllocBTree st) 0\<rparr>
                 | DT_FLOAT \<Rightarrow> st\<lparr>AllocBTree := selSort (floatV \<circ> kvalue) (AllocBTree st) 0\<rparr>
                 | _ \<Rightarrow> st))"

definition nextEntry :: "BTreeMgr \<Rightarrow> RC + RID \<times> BTreeMgr" where
  "nextEntry st =
     (if scanNextEntry st < int (numOfKeys st)
      then Inr (rid (AllocBTree st ! nat (scanNextEntry st)), st\<lparr>scanNextEntry := scanNextEntry st + 1\<rparr>)
      else Inl RC_IM_NO_MORE_ENTRIES)"

section \<open>Tree lifecycle and information\<close>

text \<open>\<^verbatim>\<open>createBtree\<close>: a new one-block index file whose block 0 receives
  the \<^verbatim>\<open>malloc\<close>ed buffer \<open>phbuf\<close> with \<open>n\<close> in its first four bytes; the
  key array is emptied and the scan cursor reset.\<close>

definition createBtree :: "int \<Rightarrow> page \<Rightarrow> RC \<times> page list \<times> BTreeMgr" where
  "createBtree n phbuf =
     (let file = ensureCapacity 1 [emptyPage] in
      (RC_OK,
       (case writeBlock 0 (int_bytes n @ drop 4 phbuf) file of Inl _ \<Rightarrow> file | Inr f \<Rightarrow> f),
       \<lparr>AllocBTree = [], scanNextEntry = 0\<rparr>))"

text \<open>\<^verbatim>\<open>openBtree\<close>: a FIFO pool of 6 frames on the index file; block 1 is
  pinned and its first int becomes \<^verbatim>\<open>maxNumOfKeysPerNode\<close>.\<close>

definition openBtree :: "page list \<Rightarrow> BM_PageHandle \<Rightarrow> TreeInfo option" where
  "openBtree file ph =
     do { ti1 \<leftarrow> tree_pin \<lparr>tbm = initBufferPool file 6 RS_FIFO, tph = ph, phLit = None,
                           maxNumOfKeysPerNode = 0, nodeCounter = 0\<rparr> 1;
          let mx = (case ph_data (tph ti1) of
                      Some i \<Rightarrow> le_int32 (data (frames (tbm ti1) ! i))
                    | None \<Rightarrow> 0);
          tree_unpin (ti1\<lparr>maxNumOfKeysPerNode := mx, nodeCounter := 0\<rparr>) }"

definition deleteBtree :: "BTreeMgr \<Rightarrow> RC \<times> BTreeMgr" where
  "deleteBtree st = (RC_OK, st\<lparr>AllocBTree := [], scanNextEntry := 0\<rparr>)"

text \<open>\<^verbatim>\<open>getNumNodes\<close>: \<^verbatim>\<open>samePageEntry\<close> is never initialised; its
  initial stack contents are the parameter \<open>samePageEntry0\<close>.\<close>

definition getNumNodes :: "BTreeMgr \<Rightarrow> int \<Rightarrow> int" where
  "getNumNodes st samePageEntry0 =
     (let es = AllocBTree st in
      int (length es) -
        (samePageEntry0 +
         int (length [(h, c). h \<leftarrow> [1..<length es], c \<leftarrow> rev [0..<h],
                               page (rid (es ! h)) = page (rid (es ! c))])))"

definition getNumEntries :: "BTreeMgr \<Rightarrow> int" where
  "getNumEntries st = int (numOfKeys st)"

text \<open>\<^verbatim>\<open>getKeyType\<close>: the first \<^verbatim>\<open>numOfKeys\<close> entries of the caller's
  array \<open>result\<close> receive the handle's \<^verbatim>\<open>keyType\<close>.\<close>

definition getKeyType :: "DataType \<Rightarrow> BTreeMgr \<Rightarrow> (nat \<Rightarrow> DataType) \<Rightarrow> RC \<times> (nat \<Rightarrow> DataType)" where
  "getKeyType keyType st result = (RC_OK, (\<lambda>i. if i < numOfKeys st then keyType else result i))"

text \<open>The functions that only return or free memory. \<^verbatim>\<open>shutdownIndexManager\<close>
  frees \<^verbatim>\<open>AllocBTree[numOfKeys]\<close> \<^verbatim>\<open>numOfKeys\<close> times and resets
  nothing: the key array and the cursor are as they were.\<close>

definition initIndexManager :: RC where
  "initIndexManager = RC_OK"

definition shutdownIndexManager :: "BTreeMgr \<Rightarrow> RC \<times> BTreeMgr" where
  "shutdownIndexManager st = (RC_OK, st)"

definition closeBtree :: RC where
  "closeBtree = RC_OK"

definition closeTreeScan :: RC where
  "closeTreeScan = RC_OK"

section \<open>Printing the tree\<close>

text \<open>The locals of \<^verbatim>\<open>printTree\<close>'s loop: \<^verbatim>\<open>count\<close>, \<^verbatim>\<open>tempCount\<close> and the
  strings \<^verbatim>\<open>opString\<close>, \<^verbatim>\<open>finalResult\<close> and \<^verbatim>\<open>TREE\<close> (500-byte
  arrays in the code; their overflow is not modelled).\<close>

record PrintState =
  pCount :: int
  pTempCount :: int
  opString :: "byte list"
  finalResult :: "byte list"
  treeStr :: "byte list"

text \<open>The text \<^verbatim>\<open>page.slot, key,\<close> the loop writes for an entry (five
  \<^verbatim>\<open>sprintf\<close>/\<^verbatim>\<open>strcat\<close> pairs).\<close>

definition entryText :: "KeyEntry \<Rightarrow> byte list" where
  "entryText e = sprintfInt (page (rid e)) @ lit ''.'' @ sprintfInt (slot (rid e)) @ lit '', '' @
                 sprintfInt (intV (kvalue e)) @ lit '',''"

text \<open>One round of the loop, for entry \<open>e\<close> at index \<open>i\<close>: at an even
  \<open>i \<noteq> 0\<close> the key and the next node number are appended to
  \<^verbatim>\<open>opString\<close> and \<^verbatim>\<open>finalResult\<close> restarts with the node count; the
  entry's \<^verbatim>\<open>page.slot, key,\<close> is appended to \<^verbatim>\<open>finalResult\<close>, and
  \<^verbatim>\<open>finalResult\<close> is appended to \<^verbatim>\<open>TREE\<close> at the other indexes.\<close>

definition printStep :: "PrintState \<Rightarrow> nat \<times> KeyEntry \<Rightarrow> PrintState" where
  "printStep ps ie =
     (let (i, e) = ie; node = (i mod 2 = 0 \<and> i \<noteq> 0);
          ps1 = (if node then ps\<lparr>opString := opString ps @ sprintfInt (intV (kvalue e)) @ lit '','' @
                                               sprintfInt (pTempCount ps + 1) @ lit '','',
                                   pTempCount := pTempCount ps + 1, pCount := pCount ps + 1\<rparr>
                 else ps);
          ps2 = (if node then ps1\<lparr>finalResult := sprintfInt (pCount ps1) @ [10]\<rparr> else ps1);
          ps3 = ps2\<lparr>finalResult := finalResult ps2 @ entryText e\<rparr> in
      if node then ps3 else ps3\<lparr>treeStr := treeStr ps3 @ finalResult ps3\<rparr>)"

text \<open>\<^verbatim>\<open>printTree\<close>: the loop over the entries, then
  \<^verbatim>\<open>printf("%s\n", opString); printf("%s\n", TREE)\<close>; the result is the text
  written to standard output and the handle's \<^verbatim>\<open>idxId\<close>, which is returned.\<close>

definition printTree :: "'id \<Rightarrow> BTreeMgr \<Rightarrow> 'id \<times> byte list" where
  "printTree idxId st =
     (let ps = fold (\<lambda>ie ps. printStep ps ie) (zip [0..<numOfKeys st] (AllocBTree st))
                 \<lparr>pCount = 1, pTempCount = 1, opString = lit ''1,'', finalResult = [], treeStr = []\<rparr> in
      (idxId, opString ps @ [10] @ treeStr ps @ [10]))"

text \<open>What \<^verbatim>\<open>printTree\<close> writes, in closed form: \<^verbatim>\<open>opString\<close> holds
  \<^verbatim>\<open>1,\<close> and the key and node number of every entry at an even index
  \<open>i \<ge> 2\<close>; \<^verbatim>\<open>TREE\<close> holds one line per index 0 or odd, the line at
  \<open>i\<close> being the value of \<^verbatim>\<open>finalResult\<close> after round \<open>i\<close>.\<close>

definition nodeHeader :: "nat \<Rightarrow> byte list" where
  "nodeHeader i = sprintfInt (int (i div 2) + 1) @ [10]"

definition lineAt :: "KeyEntry list \<Rightarrow> nat \<Rightarrow> byte list" where
  "lineAt es i =
     (if i = 0 then entryText (es ! 0)
      else if even i then nodeHeader i @ entryText (es ! i)
      else (if i = 1 then entryText (es ! 0) else nodeHeader (i - 1) @ entryText (es ! (i - 1))) @ entryText (es ! i))"

definition nodeKeys :: "KeyEntry list \<Rightarrow> nat \<Rightarrow> byte list" where
  "nodeKeys es i = sprintfInt (intV (kvalue (es ! i))) @ lit '','' @ sprintfInt (int (i div 2) + 1) @ lit '',''"

definition printTreeRef :: "'id \<Rightarrow> BTreeMgr \<Rightarrow> 'id \<times> byte list" where
  "printTreeRef idxId st =
     (let es = AllocBTree st; n = length es in
      (idxId, lit ''1,'' @ concat (map (nodeKeys es) (filter (\<lambda>i. even i \<and> i \<noteq> 0) [0..<n])) @ [10] @
              concat (map (lineAt es) (filter (\<lambda>i. odd i \<or> i = 0) [0..<n])) @ [10]))"

text \<open>What an entry of an index over \<^verbatim>\<open>DT_INT\<close> keys carries: the key and
  the record id.\<close>

definition intView :: "KeyEntry \<Rightarrow> int \<times> RID" where
  "intView e = (intV (kvalue e), rid e)"

text \<open>The invariant of the outer sort loop after \<open>i\<close> rounds: every entry
  before position \<open>i\<close> is no larger than any entry after it.\<close>

definition sel_inv :: "(KeyEntry \<Rightarrow> 'k::linorder) \<Rightarrow> KeyEntry list \<Rightarrow> nat \<Rightarrow> bool" where
  "sel_inv f es i \<longleftrightarrow> (\<forall>a b. a < b \<and> b < length es \<and> a < i \<longrightarrow> f (es ! a) \<le> f (es ! b))"

text \<open>An index over \<^verbatim>\<open>DT_INT\<close> keys as the test of \<^verbatim>\<open>test_assign4\<close>
  builds it: every entry an int key, no key twice.\<close>

definition int_index :: "BTreeMgr \<Rightarrow> bool" where
  "int_index st \<longleftrightarrow> (\<forall>e \<in> set (AllocBTree st). dt (kvalue e) = DT_INT) \<and>
                     distinct (map (intV \<circ> kvalue) (AllocBTree st))"

text \<open>A consumer's scan loop, \<^verbatim>\<open>while (nextEntry(sc, &rid) == RC_OK)\<close>,
  with at most \<open>k\<close> rounds: the record ids it receives and the state after.\<close>

fun scanAll :: "nat \<Rightarrow> BTreeMgr \<Rightarrow> RID list \<times> BTreeMgr" where
  "scanAll 0 st = ([], st)"
| "scanAll (Suc k) st =
     (case nextEntry st of
        Inl _ \<Rightarrow> ([], st)
      | Inr (x, st') \<Rightarrow> (let (xs, st'') = scanAll k st' in (x # xs, st'')))"

section \<open>The calls on the tree's pool\<close>

lemma tree_pin_wf:
  assumes wf: "wf_pool (tbm ti)"
  shows "\<exists>ti'. tree_pin ti p = Some ti' \<and> wf_pool (tbm ti') \<and> nodeCounter ti' = nodeCounter ti"
proof -
  let ?r = "case strategy (tbm ti) of
          RS_FIFO \<Rightarrow> pinPageFIFO (tbm ti) (tph ti) p
        | RS_LRU \<Rightarrow> pinPageLRU (tbm ti) (tph ti) p
        | RS_CLOCK \<Rightarrow> pinPageCLOCK (tbm ti) (tph ti) p"
  have "?r \<noteq> None"
    using pinPageFIFO_Some [OF wf] pinPageLRU_Some [OF wf] pinPageCLOCK_Some [OF wf]
    by (cases "strategy (tbm ti)") simp_all
  then obtain rc bm' h' where r: "?r = Some (rc, bm', h')"
    by (metis not_None_eq prod_cases3)
  have "wf_pool bm'"
    using r wf_pinPageFIFO [OF wf] wf_pinPageLRU [OF wf] wf_pinPageCLOCK [OF wf]
    by (cases "strategy (tbm ti)") auto
  with r show ?thesis by (simp add: tree_pin_def)
qed

lemma tree_markDirty_wf:
  assumes wf: "wf_pool (tbm ti)"
  shows "\<exists>bm'. tree_markDirty ti = Some (ti\<lparr>tbm := bm'\<rparr>) \<and> wf_pool bm'"
  using wf_markDirty [OF wf, of "tph ti"] by (auto simp: tree_markDirty_def)

lemma tree_unpin_wf:
  assumes wf: "wf_pool (tbm ti)"
  shows "\<exists>bm'. tree_unpin ti = Some (ti\<lparr>tbm := bm'\<rparr>) \<and> wf_pool bm'"
  using wf_unpinPage [OF wf, of "tph ti"] by (auto simp: tree_unpin_def)

section \<open>Finding and inserting keys\<close>

lemma findKeyLoop_valid:
  "validKey key \<Longrightarrow> findKeyLoop key es =
     (case firstMatch key es of None \<Rightarrow> Inl RC_IM_KEY_NOT_FOUND | Some i \<Rightarrow> Inr (rid (es ! i)))"
  by (induction es) (auto split: option.splits)

lemma firstMatch_None: "firstMatch key es = None \<longleftrightarrow> \<not> list_ex (\<lambda>e. keyEq (kvalue e) key) es"
  by (induction es) auto

lemma firstMatch_Some:
  "firstMatch key es = Some i \<Longrightarrow> i < length es \<and> keyEq (kvalue (es ! i)) key \<and>
     (\<forall>j < i. \<not> keyEq (kvalue (es ! j)) key)"
proof (induction es arbitrary: i)
  case Nil
  then show ?case by simp
next
  case (Cons e es)
  then show ?case by (auto simp: nth_Cons' less_Suc_eq_0_disj split: if_splits)
qed

lemma firstMatch_append_new:
  "\<not> list_ex (\<lambda>e. keyEq (kvalue e) key) es \<Longrightarrow> firstMatch key (es @ [e]) =
     (if keyEq (kvalue e) key then Some (length es) else None)"
  by (induction es) auto

lemma storeKey_Some:
  "validKey key \<Longrightarrow> storeKey fresh key r = Some (the (storeKey fresh key r)) \<and> rid (the (storeKey fresh key r)) = r \<and>
     dt (kvalue (the (storeKey fresh key r))) = dt key"
  by (cases "dt key") (simp_all add: storeKey_def validKey_def)

lemma insertKey_new:
  assumes wf: "wf_pool (tbm ti)" and v: "validKey key" and n: "\<not> list_ex (\<lambda>e. keyEq (kvalue e) key) (AllocBTree st)"
  shows "\<exists>ti'. insertKey ti st fresh key r =
            Some (RC_OK, ti', st\<lparr>AllocBTree := AllocBTree st @ [the (storeKey fresh key r)]\<rparr>) \<and>
          wf_pool (tbm ti')"
proof -
  obtain e where sk: "storeKey fresh key r = Some e" using storeKey_Some [OF v] by blast
  show ?thesis
  proof (cases "AllocBTree st = []")
    case True
    obtain ti1 where p: "tree_pin ti 0 = Some ti1" "wf_pool (tbm ti1)" using tree_pin_wf [OF wf] by blast
    obtain bm2 where m: "tree_markDirty ti1 = Some (ti1\<lparr>tbm := bm2\<rparr>)" "wf_pool bm2"
      using tree_markDirty_wf [OF p(2)] by blast
    obtain bm3 where u: "tree_unpin (ti1\<lparr>tbm := bm2, phLit := Some ''NotFull''\<rparr>) =
        Some (ti1\<lparr>tbm := bm2, phLit := Some ''NotFull'', tbm := bm3\<rparr>)" "wf_pool bm3"
      using tree_unpin_wf [of "ti1\<lparr>tbm := bm2, phLit := Some ''NotFull''\<rparr>"] m(2) by auto
    show ?thesis using True p m u sk by (simp add: insertKey_def Let_def)
  next
    case False
    obtain ti1 where p: "tree_pin ti (nodeCounter ti) = Some ti1" "wf_pool (tbm ti1)" using tree_pin_wf [OF wf] by blast
    obtain bm2 where m: "tree_markDirty ti1 = Some (ti1\<lparr>tbm := bm2\<rparr>)" "wf_pool bm2"
      using tree_markDirty_wf [OF p(2)] by blast
    show ?thesis
    proof (cases "nodeFull (ti1\<lparr>tbm := bm2\<rparr>)")
      case True
      let ?t3 = "ti1\<lparr>tbm := bm2, nodeCounter := nodeCounter ti1 + 1\<rparr>"
      obtain bm3 where u: "tree_unpin ?t3 = Some (?t3\<lparr>tbm := bm3\<rparr>)" "wf_pool bm3"
        using tree_unpin_wf [of ?t3] m(2) by auto
      obtain ti4 where p4: "tree_pin (?t3\<lparr>tbm := bm3\<rparr>) (nodeCounter ti1 + 1) = Some ti4" "wf_pool (tbm ti4)"
        using tree_pin_wf [of "?t3\<lparr>tbm := bm3\<rparr>"] u(2) by auto
      obtain bm5 where u5: "tree_unpin (ti4\<lparr>phLit := Some ''NotFull''\<rparr>) = Some (ti4\<lparr>phLit := Some ''NotFull'', tbm := bm5\<rparr>)"
          "wf_pool bm5"
        using tree_unpin_wf [of "ti4\<lparr>phLit := Some ''NotFull''\<rparr>"] p4(2) by auto
      show ?thesis using False v n p m True u p4 u5 sk by (simp add: insertKey_def Let_def)
    next
      case nf: False
      obtain bm3 where u: "tree_unpin (ti1\<lparr>tbm := bm2, phLit := Some ''NodeFull''\<rparr>) =
          Some (ti1\<lparr>tbm := bm2, phLit := Some ''NodeFull'', tbm := bm3\<rparr>)" "wf_pool bm3"
        using tree_unpin_wf [of "ti1\<lparr>tbm := bm2, phLit := Some ''NodeFull''\<rparr>"] m(2) by auto
      show ?thesis using False v n p m nf u sk by (simp add: insertKey_def Let_def)
    qed
  qed
qed

lemma insertKey_dup:
  "list_ex (\<lambda>e. keyEq (kvalue e) key) (AllocBTree st) \<Longrightarrow> validKey key \<Longrightarrow>
     insertKey ti st fresh key r = Some (RC_IM_KEY_ALREADY_EXISTS, ti, st)"
  by (cases "AllocBTree st") (auto simp: insertKey_def Let_def)

section \<open>Deleting keys\<close>

lemma copyEntry_int: "dt (kvalue b) = DT_INT \<Longrightarrow> intView (copyEntry a b) = intView b"
  unfolding copyEntry_def intView_def Let_def by simp

lemma shiftDown_Cons2: "shiftDown (a # b # rest) = copyEntry a b # shiftDown (b # rest)"
  by (rule shiftDown.simps(1))

lemma shiftDown_int:
  "\<forall>e \<in> set xs. dt (kvalue e) = DT_INT \<Longrightarrow> map intView (shiftDown xs) = map intView (tl xs)"
proof (induction xs rule: shiftDown.induct)
  case (1 a b rest)
  have p: "\<forall>e \<in> set (b # rest). dt (kvalue e) = DT_INT" using "1.prems" by simp
  have "map intView (shiftDown (b # rest)) = map intView rest" using "1.IH" [OF p] by simp
  moreover have "intView (copyEntry a b) = intView b" using p by (intro copyEntry_int) simp
  ultimately show ?case by (simp only: shiftDown_Cons2 list.map list.sel)
qed simp_all

lemma shiftDown_dt_int:
  "\<forall>e \<in> set xs. dt (kvalue e) = DT_INT \<Longrightarrow> \<forall>e \<in> set (shiftDown xs). dt (kvalue e) = DT_INT"
proof (induction xs rule: shiftDown.induct)
  case (1 a b rest)
  have p: "\<forall>e \<in> set (b # rest). dt (kvalue e) = DT_INT" using "1.prems" by simp
  have "dt (kvalue (copyEntry a b)) = DT_INT" using p by (simp add: copyEntry_def Let_def)
  with "1.IH" [OF p] show ?case by (simp only: shiftDown_Cons2 list.set ball_simps)
qed simp_all

lemma deleteKey_found:
  assumes wf: "wf_pool (tbm ti)" and v: "validKey key" and i: "firstMatch key (AllocBTree st) = Some i"
  shows "\<exists>ti'. deleteKey ti st key =
            Some (RC_OK, ti', st\<lparr>AllocBTree := take i (AllocBTree st) @ shiftDown (drop i (AllocBTree st))\<rparr>) \<and>
          wf_pool (tbm ti')"
proof -
  obtain ti1 where p: "tree_pin ti (int i div 2) = Some ti1" "wf_pool (tbm ti1)" using tree_pin_wf [OF wf] by blast
  obtain bm2 where m: "tree_markDirty (ti1\<lparr>phLit := Some ''NotFull''\<rparr>) = Some (ti1\<lparr>phLit := Some ''NotFull'', tbm := bm2\<rparr>)"
      "wf_pool bm2"
    using tree_markDirty_wf [of "ti1\<lparr>phLit := Some ''NotFull''\<rparr>"] p(2) by auto
  obtain bm3 where u: "tree_unpin (ti1\<lparr>phLit := Some ''NotFull'', tbm := bm2\<rparr>) =
      Some (ti1\<lparr>phLit := Some ''NotFull'', tbm := bm2, tbm := bm3\<rparr>)" "wf_pool bm3"
    using tree_unpin_wf [of "ti1\<lparr>phLit := Some ''NotFull'', tbm := bm2\<rparr>"] m(2) by auto
  show ?thesis using v i p m u by (simp add: deleteKey_def Let_def)
qed

lemma deleteKey_absent:
  "validKey key \<Longrightarrow> firstMatch key (AllocBTree st) = None \<Longrightarrow> deleteKey ti st key = Some (RC_OK, ti, st)"
  by (simp add: deleteKey_def Let_def)

lemma remove_nth_map: "i < length xs \<Longrightarrow> map f (take i xs @ tl (drop i xs)) = take i (map f xs) @ drop (Suc i) (map f xs)"
  by (simp add: drop_Suc tl_drop take_map drop_map)

section \<open>The selection sort of openTreeScan\<close>

lemma minIdx_step:
  "j < length es \<Longrightarrow> minIdx f es m j = minIdx f es (if f (es ! j) < f (es ! m) then j else m) (Suc j)"
  by (simp add: minIdx.simps [of f es m j])

lemma minIdx_stop: "\<not> j < length es \<Longrightarrow> minIdx f es m j = m"
  by (simp add: minIdx.simps [of f es m j])

lemma minIdx_range:
  "m < length es \<Longrightarrow> minIdx f es m j < length es \<and> (minIdx f es m j = m \<or> j \<le> minIdx f es m j)"
proof (induction f es m j rule: minIdx.induct)
  case (1 f es m j)
  show ?case
  proof (cases "j < length es")
    case True
    define m' where "m' = (if f (es ! j) < f (es ! m) then j else m)"
    have "m' < length es" using True "1.prems" by (simp add: m'_def)
    from "1.IH" [OF True, folded m'_def, OF this]
    have "minIdx f es m' (Suc j) < length es \<and> (minIdx f es m' (Suc j) = m' \<or> Suc j \<le> minIdx f es m' (Suc j))" .
    moreover have "m' = m \<or> m' = j" by (simp add: m'_def)
    ultimately show ?thesis using minIdx_step [OF True, of f m, folded m'_def] by auto
  next
    case False
    then show ?thesis using "1.prems" minIdx_stop [of j es f m] by simp
  qed
qed

lemma minIdx_least:
  "f (es ! minIdx f es m j) \<le> f (es ! m) \<and>
     (\<forall>k. j \<le> k \<and> k < length es \<longrightarrow> f (es ! minIdx f es m j) \<le> f (es ! k))"
proof (induction f es m j rule: minIdx.induct)
  case (1 f es m j)
  show ?case
  proof (cases "j < length es")
    case True
    define m' where "m' = (if f (es ! j) < f (es ! m) then j else m)"
    have eq: "minIdx f es m j = minIdx f es m' (Suc j)" unfolding m'_def by (rule minIdx_step [OF True])
    from "1.IH" [OF True, folded m'_def]
    have ih: "f (es ! minIdx f es m' (Suc j)) \<le> f (es ! m')"
      "\<forall>k. Suc j \<le> k \<and> k < length es \<longrightarrow> f (es ! minIdx f es m' (Suc j)) \<le> f (es ! k)" by blast+
    have a: "f (es ! m') \<le> f (es ! m)" "f (es ! m') \<le> f (es ! j)" by (auto simp: m'_def)
    have "\<forall>k. j \<le> k \<and> k < length es \<longrightarrow> f (es ! minIdx f es m' (Suc j)) \<le> f (es ! k)"
    proof (intro allI impI)
      fix k assume k: "j \<le> k \<and> k < length es"
      show "f (es ! minIdx f es m' (Suc j)) \<le> f (es ! k)"
      proof (cases "k = j")
        case True
        with ih(1) a(2) show ?thesis by simp
      next
        case False
        with k ih(2) show ?thesis by simp
      qed
    qed
    with ih(1) a(1) show ?thesis unfolding eq by simp
  next
    case False
    then show ?thesis using minIdx_stop [of j es f m] by auto
  qed
qed

lemma selSort_step:
  "Suc i < length es \<Longrightarrow>
     selSort f es i = selSort f (es[minIdx f es i (Suc i) := es ! i, i := es ! minIdx f es i (Suc i)]) (Suc i)"
  by (simp add: selSort.simps [of f es i] Let_def)

lemma selSort_stop: "\<not> Suc i < length es \<Longrightarrow> selSort f es i = es"
  by (simp add: selSort.simps [of f es i])

lemma selSort_mset: "i < length es \<or> length es \<le> Suc i \<Longrightarrow> mset (selSort f es i) = mset es"
proof (induction f es i rule: selSort.induct)
  case (1 f es i)
  show ?case
  proof (cases "Suc i < length es")
    case True
    let ?m = "minIdx f es i (Suc i)"
    have m: "?m < length es" using minIdx_range [of i es f "Suc i"] True by simp
    have "mset (es[?m := es ! i, i := es ! ?m]) = mset es" using m True by (intro mset_swap) simp_all
    moreover have "mset (selSort f (es[?m := es ! i, i := es ! ?m]) (Suc i)) = mset (es[?m := es ! i, i := es ! ?m])"
      using "1.IH" [OF True refl] True by simp
    ultimately show ?thesis unfolding selSort_step [OF True] by simp
  next
    case False
    then show ?thesis by (simp add: selSort_stop)
  qed
qed

lemma sel_inv_step:
  assumes inv: "sel_inv f es i" and i: "Suc i < length es"
  shows "sel_inv f (es[minIdx f es i (Suc i) := es ! i, i := es ! minIdx f es i (Suc i)]) (Suc i)"
proof -
  let ?m = "minIdx f es i (Suc i)"
  let ?es' = "es[?m := es ! i, i := es ! ?m]"
  have m: "?m < length es" "?m = i \<or> Suc i \<le> ?m" using minIdx_range [of i es f "Suc i"] i by simp_all
  have least: "f (es ! ?m) \<le> f (es ! i)" "\<And>k. Suc i \<le> k \<Longrightarrow> k < length es \<Longrightarrow> f (es ! ?m) \<le> f (es ! k)"
    using minIdx_least [of f es i "Suc i"] by auto
  have nth': "\<And>b. b < length es \<Longrightarrow> ?es' ! b = (if b = i then es ! ?m else if b = ?m then es ! i else es ! b)"
    using m(1) i by (auto simp: nth_list_update)
  show ?thesis
    unfolding sel_inv_def
  proof (intro allI impI)
    fix a b assume ab: "a < b \<and> b < length ?es' \<and> a < Suc i"
    then have b: "b < length es" and a: "a < length es" by simp_all
    show "f (?es' ! a) \<le> f (?es' ! b)"
    proof (cases "a < i")
      case True
      have "a \<noteq> ?m" using True m(2) by auto
      then have ea: "?es' ! a = es ! a" using nth' [OF a] True by simp
      have d: "\<And>x y. x < y \<Longrightarrow> y < length es \<Longrightarrow> x < i \<Longrightarrow> f (es ! x) \<le> f (es ! y)"
        using inv unfolding sel_inv_def by blast
      have "a < ?m" using True m(2) by linarith
      then have "f (es ! a) \<le> f (es ! b)" "f (es ! a) \<le> f (es ! i)" "f (es ! a) \<le> f (es ! ?m)"
        using d [of a b] d [of a i] d [of a ?m] True ab m(1) i by simp_all
      then show ?thesis using ea nth' [OF b] by simp
    next
      case False
      with ab have ai: "a = i" by simp
      then have "b \<noteq> i" "Suc i \<le> b" using ab by simp_all
      then have ea: "?es' ! a = es ! ?m" and eb: "?es' ! b = (if b = ?m then es ! i else es ! b)"
        using ai nth' [OF a] nth' [OF b] by simp_all
      show ?thesis
      proof (cases "b = ?m")
        case True
        then show ?thesis using ea eb least(1) by simp
      next
        case False
        then show ?thesis using ea eb least(2) [OF \<open>Suc i \<le> b\<close> b] by simp
      qed
    qed
  qed
qed

lemma selSort_sorted: "sel_inv f es i \<Longrightarrow> sorted (map f (selSort f es i))"
proof (induction f es i rule: selSort.induct)
  case (1 f es i)
  show ?case
  proof (cases "Suc i < length es")
    case True
    then show ?thesis unfolding selSort_step [OF True] using "1.IH" [OF True refl] sel_inv_step [OF "1.prems" True] by simp
  next
    case False
    have "\<forall>a b. a < b \<and> b < length es \<longrightarrow> f (es ! a) \<le> f (es ! b)"
      using "1.prems" False unfolding sel_inv_def by (metis less_trans_Suc not_less_eq)
    then have "sorted (map f es)" by (auto simp: sorted_iff_nth_mono_less)
    then show ?thesis using False by (simp add: selSort_stop)
  qed
qed

lemma selSort_sort: "map f (selSort f es 0) = sort (map f es)"
proof -
  have "sorted (map f (selSort f es 0))" by (rule selSort_sorted) (simp add: sel_inv_def)
  moreover have "mset (map f (selSort f es 0)) = mset (map f es)"
    using selSort_mset [where i = 0 and es = es and f = f] by (cases es) simp_all
  ultimately show ?thesis by (metis properties_for_sort)
qed


section \<open>Evaluation on concrete trees\<close>

lemma emptyPage_takeWhile: "takeWhile (\<lambda>b. b \<noteq> 0) emptyPage = []"
  by (simp add: emptyPage_def PAGE_SIZE_def replicate_numeral_Cons)

lemma emptyPage_take4: "take 4 emptyPage = replicate 4 0"
  by (simp add: emptyPage_def PAGE_SIZE_def replicate_numeral_Cons)

lemmas bt_eval = bm_eval tree_pin_def tree_markDirty_def tree_unpin_def nodeFull_def cstr_eq_def
  validKey_def keyEq_def storeKey_def insertKey_def createBtree_def openBtree_def deleteKey_def
  copyEntry_def emptyPage_takeWhile emptyPage_take4 le_int32_def int_bytes_def findKey_def
  openTreeScan_def nextEntry_def selSort.simps minIdx.simps getNumNodes_def

section \<open>Facts the index properties share\<close>

lemma findKeyLoop_Inr: "findKeyLoop key es = Inr x \<Longrightarrow> validKey key \<and> list_ex (\<lambda>e. keyEq (kvalue e) key) es"
  by (induction es) (auto split: if_splits)

lemma findKey_not_found:
  "validKey key \<Longrightarrow> findKey st key = Inl RC_IM_KEY_NOT_FOUND \<longleftrightarrow> firstMatch key (AllocBTree st) = None"
  by (simp add: findKey_def findKeyLoop_valid split: option.splits)

lemma storeKey_keyEq:
  "dt key = DT_INT \<Longrightarrow> keyEq (kvalue (the (storeKey fresh key r))) key"
  by (auto simp: storeKey_def keyEq_def)

lemma keyEq_int: "dt key = DT_INT \<Longrightarrow> keyEq v key \<longleftrightarrow> dt v = DT_INT \<and> intV v = intV key"
  by (simp add: keyEq_def)

lemma firstMatch_int:
  assumes "\<forall>e \<in> set es. dt (kvalue e) = DT_INT" "dt key = DT_INT"
  shows "firstMatch key es = None \<longleftrightarrow> intV key \<notin> set (map (intV \<circ> kvalue) es)"
  using assms by (induction es) (auto simp: keyEq_int)

lemma map_intV_intView: "map (intV \<circ> kvalue) es = map fst (map intView es)"
  by (simp add: intView_def)

lemma distinct_remove_nth:
  "distinct xs \<Longrightarrow> i < length xs \<Longrightarrow> distinct (take i xs @ drop (Suc i) xs) \<and> xs ! i \<notin> set (take i xs @ drop (Suc i) xs)"
proof -
  assume d: "distinct xs" and i: "i < length xs"
  have "distinct (take i xs @ xs ! i # drop (Suc i) xs)" using id_take_nth_drop [OF i] d by simp
  then show ?thesis by auto
qed

lemma scanAll_from:
  "scanNextEntry st = int j \<Longrightarrow> j \<le> numOfKeys st \<Longrightarrow>
     scanAll (numOfKeys st - j + k) st = (map rid (drop j (AllocBTree st)), st\<lparr>scanNextEntry := int (numOfKeys st)\<rparr>)"
proof (induction "numOfKeys st - j" arbitrary: st j)
  case 0
  then have "j = numOfKeys st" by simp
  then show ?case using "0.prems"
    by (cases k) (simp_all add: nextEntry_def)
next
  case (Suc d)
  let ?st' = "st\<lparr>scanNextEntry := scanNextEntry st + 1\<rparr>"
  have j: "j < numOfKeys st" using Suc.hyps by simp
  have ne: "nextEntry st = Inr (rid (AllocBTree st ! j), ?st')" using j Suc.prems by (simp add: nextEntry_def)
  have "scanAll (numOfKeys ?st' - Suc j + k) ?st' = (map rid (drop (Suc j) (AllocBTree st)), ?st'\<lparr>scanNextEntry := int (numOfKeys st)\<rparr>)"
    using Suc.hyps(1) [of ?st' "Suc j"] Suc.hyps(2) Suc.prems j by simp
  moreover have "numOfKeys st - j + k = Suc (numOfKeys ?st' - Suc j + k)" using j by simp
  moreover have "drop j (AllocBTree st) = AllocBTree st ! j # drop (Suc j) (AllocBTree st)"
    using j by (simp add: Cons_nth_drop_Suc)
  ultimately show ?case using ne by simp
qed

lemma readBlock_createBtree:
  "readBlock 0 (fst (snd (createBtree n phbuf))) = Inr (int_bytes n @ drop 4 phbuf)"
  by (simp add: createBtree_def ensureCapacity_def writeBlock_def readBlock_def emptyPage_def PAGE_SIZE_def)

lemma scanAll_numeral:
  "scanAll (numeral k) st =
     (case nextEntry st of
        Inl _ \<Rightarrow> ([], st)
      | Inr (x, st') \<Rightarrow> (let (xs, st'') = scanAll (pred_numeral k) st' in (x # xs, st'')))"
  by (simp add: numeral_eq_Suc)

section \<open>The text printTree writes\<close>

text \<open>The number of node rounds among the first \<open>k\<close>, and the locals of
  \<^verbatim>\<open>printTree\<close> after \<open>k\<close> rounds of its loop.\<close>

lemma count_even_nonzero:
  "int (length (filter (\<lambda>i. even i \<and> i \<noteq> 0) [0..<k])) = (if k = 0 then 0 else int ((k - 1) div 2))"
proof (induction k)
  case 0
  then show ?case by simp
next
  case (Suc k)
  then show ?case by (cases "k = 0") (auto elim: oddE)
qed

lemma printFold:
  "k \<le> length es \<Longrightarrow>
   fold (\<lambda>ie ps. printStep ps ie) (zip [0..<k] (take k es))
     \<lparr>pCount = 1, pTempCount = 1, opString = lit ''1,'', finalResult = [], treeStr = []\<rparr> =
   \<lparr>pCount = 1 + int (length (filter (\<lambda>i. even i \<and> i \<noteq> 0) [0..<k])),
    pTempCount = 1 + int (length (filter (\<lambda>i. even i \<and> i \<noteq> 0) [0..<k])),
    opString = lit ''1,'' @ concat (map (nodeKeys es) (filter (\<lambda>i. even i \<and> i \<noteq> 0) [0..<k])),
    finalResult = (if k = 0 then [] else lineAt es (k - 1)),
    treeStr = concat (map (lineAt es) (filter (\<lambda>i. odd i \<or> i = 0) [0..<k]))\<rparr>"
proof (induction k)
  case 0
  then show ?case by simp
next
  case (Suc k)
  have k: "k < length es" using Suc.prems by simp
  have z: "zip [0..<Suc k] (take (Suc k) es) = zip [0..<k] (take k es) @ [(k, es ! k)]"
    using k by (simp add: take_Suc_conv_app_nth)
  have ih: "fold (\<lambda>ie ps. printStep ps ie) (zip [0..<Suc k] (take (Suc k) es))
     \<lparr>pCount = 1, pTempCount = 1, opString = lit ''1,'', finalResult = [], treeStr = []\<rparr> =
     printStep \<lparr>pCount = 1 + int (length (filter (\<lambda>i. even i \<and> i \<noteq> 0) [0..<k])),
       pTempCount = 1 + int (length (filter (\<lambda>i. even i \<and> i \<noteq> 0) [0..<k])),
       opString = lit ''1,'' @ concat (map (nodeKeys es) (filter (\<lambda>i. even i \<and> i \<noteq> 0) [0..<k])),
       finalResult = (if k = 0 then [] else lineAt es (k - 1)),
       treeStr = concat (map (lineAt es) (filter (\<lambda>i. odd i \<or> i = 0) [0..<k]))\<rparr> (k, es ! k)"
    unfolding z fold_append using Suc.IH k by simp
  consider (z) "k = 0" | (ev) m where "k = 2 * m" "0 < m" | (od) m where "k = 2 * m + 1"
    by (metis evenE oddE gr0I mult_0_right)
  then show ?case
  proof cases
    case z
    then show ?thesis unfolding ih by (simp add: printStep_def lineAt_def)
  next
    case ev
    then have "int ((k - 1) div 2) + 2 = int (k div 2) + 1" by simp
    then show ?thesis unfolding ih using count_even_nonzero [of k] ev
      by (simp add: printStep_def lineAt_def [of es "2 * m"] nodeKeys_def [of es "2 * m"] nodeHeader_def)
  next
    case od
    have c: "int (length (filter (\<lambda>i. even i \<and> i \<noteq> 0) [0..<2 * m])) + 1 = int m" if "0 < m"
      using count_even_nonzero [of "2 * m"] that by (cases m) simp_all
    show ?thesis unfolding ih using od c
      by (cases "m = 0") (simp_all add: printStep_def lineAt_def [of es "Suc (2 * m)"] lineAt_def [of es "2 * m"]
          lineAt_def [of es "Suc 0"] lineAt_def [of es 0] nodeHeader_def)
  qed
qed

end
