(* ===== verification/RM_Attr.thy ===== *)
theory RM_Attr
  imports Tables
begin

text \<open>
  The attribute layer of the record manager, \<^verbatim>\<open>src/record_mgr.c\<close>: the offset
  of an attribute in a record's data (\<^verbatim>\<open>attrOffset\<close>), the size of a record
  (\<^verbatim>\<open>getRecordSize\<close>), \<^verbatim>\<open>createSchema\<close>, and the reads and writes of one
  attribute (\<^verbatim>\<open>getAttr\<close>, \<^verbatim>\<open>setAttr\<close>). A record's data is a byte buffer,
  the strings a \<^verbatim>\<open>Value\<close> points to live in a byte-addressed memory \<open>mem\<close>,
  and what comes from outside the sources (the serializer, \<^verbatim>\<open>strtof\<close>, the
  bytes of a \<^verbatim>\<open>float\<close>, what \<^verbatim>\<open>malloc\<close> returns) is a record of parameters.
\<close>

section \<open>What the record manager takes from outside the sources\<close>

text \<open>\<^verbatim>\<open>sizeof\<close> of the attribute types on the target: 32-bit \<^verbatim>\<open>int\<close> and
  \<^verbatim>\<open>float\<close>, and \<^verbatim>\<open>bool\<close>, which the course headers define as \<^verbatim>\<open>short\<close>.\<close>

definition sizeofInt :: int where
  "sizeofInt = 4"

definition sizeofFloat :: int where
  "sizeofFloat = 4"

definition sizeofBool :: int where
  "sizeofBool = 2"

text \<open>The environment: \<^verbatim>\<open>serializeRecord\<close> and \<^verbatim>\<open>serializeSchema\<close> of
  \<^verbatim>\<open>rm_serializer.c\<close> (not in the repository), \<^verbatim>\<open>strtof\<close>, the 4 bytes of a
  \<^verbatim>\<open>float\<close> and back, and the contents of fresh \<^verbatim>\<open>malloc\<close>ed memory: a
  \<^verbatim>\<open>Value\<close>, a \<^verbatim>\<open>Record\<close>, the address of a string buffer, the arrays
  and fields of a \<^verbatim>\<open>Schema\<close> (entry \<open>k\<close> of a fresh array is entry \<open>k\<close>
  of the corresponding list), the string a fresh one-byte buffer holds, and
  the bytes of a page file as it lies on disk, from its start (the layout of
  \<^verbatim>\<open>storage_mgr.c\<close>, not in the repository).\<close>

record RM_Env =
  serializeRecord :: "Record \<Rightarrow> Schema \<Rightarrow> byte list"
  serializeSchema :: "Schema \<Rightarrow> byte list"
  strtof :: "byte list \<Rightarrow> real"
  floatBytes :: "real \<Rightarrow> byte list"
  bytesFloat :: "byte list \<Rightarrow> real"
  freshValue :: Value
  freshRecord :: Record
  freshStr :: nat
  freshSchema :: Schema
  junkString :: "byte list"
  fileBytes :: "page list \<Rightarrow> byte list"

section \<open>Offsets and sizes\<close>

text \<open>The loop of \<^verbatim>\<open>attrOffset\<close>: the sizes of the attributes before
  \<^verbatim>\<open>attrNum\<close>, by the \<^verbatim>\<open>switch\<close> on their types.\<close>

function offsetLoop :: "Schema \<Rightarrow> int \<Rightarrow> int \<Rightarrow> int \<Rightarrow> int" where
  "offsetLoop schema attrNum attrPosition offset =
     (if attrPosition < attrNum
      then offsetLoop schema attrNum (attrPosition + 1)
             (offset + (case dataTypes schema ! nat attrPosition of
                          DT_STRING \<Rightarrow> typeLength schema ! nat attrPosition
                        | DT_INT \<Rightarrow> sizeofInt
                        | DT_FLOAT \<Rightarrow> sizeofFloat
                        | DT_BOOL \<Rightarrow> sizeofBool))
      else offset)"
  by pat_completeness auto
termination by (relation "measure (\<lambda>(_, n, p, _). nat (n - p))") auto

definition attrOffset :: "Schema \<Rightarrow> int \<Rightarrow> RC \<times> int" where
  "attrOffset schema attrNum = (RC_OK, offsetLoop schema attrNum 0 0)"

text \<open>The loop of \<^verbatim>\<open>getRecordSize\<close>, an \<^verbatim>\<open>if\<close> chain whose last branch
  takes \<^verbatim>\<open>typeLength\<close>.\<close>

function sizeLoop :: "Schema \<Rightarrow> int \<Rightarrow> int \<Rightarrow> int" where
  "sizeLoop schema i recordSize =
     (if i < numAttr schema
      then sizeLoop schema (i + 1)
             (recordSize + (if dataTypes schema ! nat i = DT_INT then sizeofInt
                            else if dataTypes schema ! nat i = DT_FLOAT then sizeofFloat
                            else if dataTypes schema ! nat i = DT_BOOL then sizeofBool
                            else typeLength schema ! nat i))
      else recordSize)"
  by pat_completeness auto
termination by (relation "measure (\<lambda>(schema, i, _). nat (numAttr schema - i))") auto

definition getRecordSize :: "Schema \<Rightarrow> int" where
  "getRecordSize schema = sizeLoop schema 0 0"

definition createSchema ::
  "int \<Rightarrow> byte list list \<Rightarrow> DataType list \<Rightarrow> int list \<Rightarrow> int \<Rightarrow> int list \<Rightarrow> Schema" where
  "createSchema n names types lengths ksize keys =
     \<lparr>numAttr = n, attrNames = names, dataTypes = types, typeLength = lengths,
      keyAttrs = keys, keySize = ksize\<rparr>"

text \<open>The size the \<^verbatim>\<open>switch\<close> of \<^verbatim>\<open>attrOffset\<close> gives attribute \<open>k\<close>, and
  a schema whose arrays have \<^verbatim>\<open>numAttr\<close> entries and whose string lengths are
  not negative.\<close>

definition attrSize :: "Schema \<Rightarrow> nat \<Rightarrow> int" where
  "attrSize schema k =
     (case dataTypes schema ! k of
        DT_STRING \<Rightarrow> typeLength schema ! k
      | DT_INT \<Rightarrow> sizeofInt
      | DT_FLOAT \<Rightarrow> sizeofFloat
      | DT_BOOL \<Rightarrow> sizeofBool)"

definition wf_schema :: "Schema \<Rightarrow> bool" where
  "wf_schema schema \<longleftrightarrow>
     0 \<le> numAttr schema \<and> length (dataTypes schema) = nat (numAttr schema) \<and>
     length (typeLength schema) = nat (numAttr schema) \<and> list_all (\<lambda>l. 0 \<le> l) (typeLength schema)"

section \<open>Reading and writing an attribute\<close>

text \<open>\<^verbatim>\<open>strncpy(buf, src, n)\<close> for the \<open>n\<close> bytes \<open>src\<close>: the bytes up to the
  first NUL, then NULs.\<close>

definition strncpyBytes :: "byte list \<Rightarrow> byte list" where
  "strncpyBytes src = (let s = takeWhile (\<lambda>b. b \<noteq> 0) src in s @ replicate (length src - length s) 0)"

text \<open>\<^verbatim>\<open>getAttr\<close>: a fresh \<^verbatim>\<open>Value\<close> gets the attribute's type and the
  member of its type, read from the bytes at the attribute's offset; a string
  is copied with \<^verbatim>\<open>strncpy\<close> into a fresh buffer of \<^verbatim>\<open>len + 1\<close> bytes whose
  last byte is set to NUL.\<close>

definition getAttr :: "RM_Env \<Rightarrow> buf \<Rightarrow> Record \<Rightarrow> Schema \<Rightarrow> int \<Rightarrow> RC \<times> Value \<times> buf" where
  "getAttr env mem record schema attrNum =
     (let offset = nat (snd (attrOffset schema attrNum));
          attrData = bytesAt (rec_data record) offset;
          value = (freshValue env)\<lparr>dt := dataTypes schema ! nat attrNum\<rparr> in
      case dataTypes schema ! nat attrNum of
        DT_INT \<Rightarrow> (RC_OK, value\<lparr>intV := le_int32 (attrData (nat sizeofInt))\<rparr>, mem)
      | DT_STRING \<Rightarrow>
          (let len = nat (typeLength schema ! nat attrNum); buf = freshStr env in
           (RC_OK, value\<lparr>stringV := buf\<rparr>, memcpyTo mem buf (strncpyBytes (attrData len) @ [0])))
      | DT_FLOAT \<Rightarrow> (RC_OK, value\<lparr>floatV := bytesFloat env (attrData (nat sizeofFloat))\<rparr>, mem)
      | DT_BOOL \<Rightarrow>
          (RC_OK, value\<lparr>boolV := attrData (nat sizeofBool) \<noteq> replicate (nat sizeofBool) 0\<rparr>, mem))"

text \<open>\<^verbatim>\<open>setAttr\<close>: the member of the attribute's type is copied to its
  offset. For a string, \<^verbatim>\<open>buf = value->v.stringV; buf[len] = '\0'\<close> first
  writes a NUL into the caller's string, then its first \<^verbatim>\<open>len\<close> bytes are
  copied. A \<^verbatim>\<open>bool\<close> is the two bytes of a \<^verbatim>\<open>short\<close> 1 or 0.\<close>

definition setAttr :: "RM_Env \<Rightarrow> buf \<Rightarrow> Record \<Rightarrow> Schema \<Rightarrow> int \<Rightarrow> Value \<Rightarrow> RC \<times> Record \<times> buf" where
  "setAttr env mem record schema attrNum value =
     (let offset = nat (snd (attrOffset schema attrNum));
          put = (\<lambda>bs. record\<lparr>rec_data := memcpyTo (rec_data record) offset bs\<rparr>) in
      case dataTypes schema ! nat attrNum of
        DT_INT \<Rightarrow> (RC_OK, put (int_bytes (intV value)), mem)
      | DT_STRING \<Rightarrow>
          (let len = nat (typeLength schema ! nat attrNum); buf = stringV value;
               mem' = mem(buf + len := 0) in
           (RC_OK, put (bytesAt mem' buf len), mem'))
      | DT_FLOAT \<Rightarrow> (RC_OK, put (take (nat sizeofFloat) (floatBytes env (floatV value))), mem)
      | DT_BOOL \<Rightarrow>
          (RC_OK, put (take (nat sizeofBool) (int_bytes (if boolV value then 1 else 0))), mem))"

text \<open>The abstract view of a record: the list of the byte slices of its
  attributes, attribute \<open>k\<close> being the \<open>attrSize\<close> bytes at its offset.\<close>

definition attrSlices :: "Schema \<Rightarrow> Record \<Rightarrow> byte list list" where
  "attrSlices schema r =
     map (\<lambda>k. bytesAt (rec_data r) (nat (snd (attrOffset schema (int k)))) (nat (attrSize schema k)))
       [0..<nat (numAttr schema)]"

section \<open>Concrete inputs\<close>

text \<open>An environment, a schema \<open>(a INT, b STRING[4], c BOOL)\<close>, a memory
  holding the string \<open>"hello"\<close> at address 50, and values pointing at it.\<close>

definition demoSchemaText :: "byte list" where
  "demoSchemaText = lit ''Schema with <3> attributes (a: INT, b: STRING[4], c: BOOL) with keys: (a)''"

definition demoEnv :: RM_Env where
  "demoEnv = \<lparr>serializeRecord = (\<lambda>_ _. lit ''[1-0] (a:7,b:zz,c:0)''), serializeSchema = (\<lambda>_. demoSchemaText), strtof = (\<lambda>_. 0), floatBytes = (\<lambda>_. [0, 0, 0, 0]),
              bytesFloat = (\<lambda>_. 0),
              freshValue = \<lparr>dt = DT_INT, intV = 0, stringV = 0, floatV = 0, boolV = False\<rparr>,
              freshRecord = \<lparr>rec_id = \<lparr>page = 0, slot = 0\<rparr>, rec_data = (\<lambda>_. 0)\<rparr>,
              freshStr = 100,
              freshSchema = \<lparr>numAttr = 0, attrNames = [], dataTypes = [], typeLength = [],
                             keyAttrs = [], keySize = 0\<rparr>,
              junkString = [],
              fileBytes = (\<lambda>f. lit ''2'' @ [10] @ concat f)\<rparr>"

definition demoSchema :: Schema where
  "demoSchema = createSchema 3 [lit ''a'', lit ''b'', lit ''c''] [DT_INT, DT_STRING, DT_BOOL] [0, 4, 0] 1 [0]"

definition demoMem :: buf where
  "demoMem = memcpyTo (\<lambda>_. 0) 50 (map of_char ''hello'' @ [0])"

definition demoStr :: Value where
  "demoStr = \<lparr>dt = DT_STRING, intV = 0, stringV = 50, floatV = 0, boolV = False\<rparr>"

section \<open>Offsets, sizes and the layout of a record\<close>

declare offsetLoop.simps [simp del] sizeLoop.simps [simp del]

lemma offsetLoop_sum:
  "0 \<le> p \<Longrightarrow> offsetLoop schema n p off = off + sum_list (map (attrSize schema) [nat p..<nat n])"
proof (induction schema n p off rule: offsetLoop.induct)
  case (1 schema n p off)
  show ?case
  proof (cases "p < n")
    case True
    have up: "[nat p..<nat n] = nat p # [nat (p + 1)..<nat n]"
      using True "1.prems" by (simp add: upt_conv_Cons nat_add_distrib)
    have "offsetLoop schema n p off = offsetLoop schema n (p + 1) (off + attrSize schema (nat p))"
      using True by (subst offsetLoop.simps) (simp add: attrSize_def)
    also have "\<dots> = off + attrSize schema (nat p) + sum_list (map (attrSize schema) [nat (p + 1)..<nat n])"
      using "1.IH" [OF True] "1.prems" by (simp add: attrSize_def [of schema "nat p", symmetric])
    finally show ?thesis by (simp add: up)
  next
    case False
    then show ?thesis by (simp add: offsetLoop.simps [of schema n p off])
  qed
qed

lemma sizeLoop_offsetLoop: "sizeLoop schema i r = offsetLoop schema (numAttr schema) i r"
proof (induction schema i r rule: sizeLoop.induct)
  case (1 schema i r)
  show ?case
  proof (cases "i < numAttr schema")
    case True
    then show ?thesis
      using "1.IH" [OF True]
      by (cases "dataTypes schema ! nat i")
         (simp_all add: sizeLoop.simps [of schema i r] offsetLoop.simps [of schema "numAttr schema" i r])
  next
    case False
    then show ?thesis by (simp add: sizeLoop.simps [of schema i r] offsetLoop.simps [of schema "numAttr schema" i r])
  qed
qed

lemma attrOffset_sum:
  "snd (attrOffset schema a) = sum_list (map (attrSize schema) [0..<nat a])"
  by (simp add: attrOffset_def offsetLoop_sum)

lemma getRecordSize_sum:
  "getRecordSize schema = sum_list (map (attrSize schema) [0..<nat (numAttr schema)])"
  by (simp add: getRecordSize_def sizeLoop_offsetLoop offsetLoop_sum)

lemma attrSize_nonneg:
  assumes "wf_schema schema" "k < nat (numAttr schema)"
  shows "0 \<le> attrSize schema k"
  using assms
  by (cases "dataTypes schema ! k")
     (auto simp: attrSize_def wf_schema_def list_all_length sizeofInt_def sizeofFloat_def sizeofBool_def)

lemma sum_attrSize_mono:
  assumes "wf_schema schema" "i \<le> j" "j \<le> nat (numAttr schema)"
  shows "sum_list (map (attrSize schema) [0..<i]) + sum_list (map (attrSize schema) [i..<j])
           = sum_list (map (attrSize schema) [0..<j])"
    and "0 \<le> sum_list (map (attrSize schema) [i..<j])"
proof -
  show "sum_list (map (attrSize schema) [0..<i]) + sum_list (map (attrSize schema) [i..<j])
           = sum_list (map (attrSize schema) [0..<j])"
    using assms(2) by (metis le_Suc_ex map_append sum_list_append upt_add_eq_append zero_le)
  show "0 \<le> sum_list (map (attrSize schema) [i..<j])"
    using assms by (intro sum_list_nonneg) (auto intro: attrSize_nonneg)
qed

text \<open>The size getRecordSize computes with its if chain equals the offset attrOffset computes past the last attribute with its switch: the two loops agree for every schema\<close>

theorem getRecordSize_attrOffset: "getRecordSize schema = snd (attrOffset schema (numAttr schema))"
  by (simp add: getRecordSize_def attrOffset_def sizeLoop_offsetLoop)

text \<open>C31: in a well-formed schema every attribute lies inside the record: its offset is not negative and its offset plus its size is at most getRecordSize, the number of bytes createRecord allocates\<close>

theorem attr_within_record:
  assumes "wf_schema schema" "0 \<le> i" "i < numAttr schema"
  shows "0 \<le> snd (attrOffset schema i) \<and>
         snd (attrOffset schema i) + attrSize schema (nat i) \<le> getRecordSize schema"
proof -
  let ?s = "\<lambda>a b. sum_list (map (attrSize schema) [a..<b])"
  have n: "Suc (nat i) \<le> nat (numAttr schema)" using assms by linarith
  have "?s 0 (nat i) + attrSize schema (nat i) = ?s 0 (Suc (nat i))" by simp
  also have "\<dots> \<le> ?s 0 (Suc (nat i)) + ?s (Suc (nat i)) (nat (numAttr schema))"
    using sum_attrSize_mono(2) [OF assms(1) n order_refl] by simp
  also have "\<dots> = ?s 0 (nat (numAttr schema))"
    using sum_attrSize_mono(1) [OF assms(1) n order_refl] .
  finally show ?thesis
    using sum_attrSize_mono(2) [OF assms(1), of 0 "nat i"] n
    by (simp add: attrOffset_sum getRecordSize_sum)
qed

lemma attrs_apart:
  assumes "wf_schema schema" "0 \<le> i" "i < j" "j < numAttr schema"
  shows "snd (attrOffset schema i) + attrSize schema (nat i) \<le> snd (attrOffset schema j)"
proof -
  let ?s = "\<lambda>a b. sum_list (map (attrSize schema) [a..<b])"
  have n: "Suc (nat i) \<le> nat j" "nat j \<le> nat (numAttr schema)" using assms by linarith+
  have "?s 0 (nat i) + attrSize schema (nat i) = ?s 0 (Suc (nat i))" by simp
  also have "\<dots> \<le> ?s 0 (Suc (nat i)) + ?s (Suc (nat i)) (nat j)"
    using sum_attrSize_mono(2) [OF assms(1) n] by simp
  also have "\<dots> = ?s 0 (nat j)"
    using sum_attrSize_mono(1) [OF assms(1) n] .
  finally show ?thesis by (simp add: attrOffset_sum)
qed

lemma attrOffset_nonneg:
  assumes "wf_schema schema" "0 \<le> i" "i \<le> numAttr schema"
  shows "0 \<le> snd (attrOffset schema i)"
proof -
  have "nat i \<le> nat (numAttr schema)" using assms(3) by simp
  from sum_attrSize_mono(2) [OF assms(1) _ this, of 0] show ?thesis by (simp add: attrOffset_sum)
qed

lemma setAttr_written:
  assumes set: "setAttr env mem r schema i v = (rc, r', mem')"
  shows "rc = RC_OK \<and> (\<exists>bs. length bs \<le> nat (attrSize schema (nat i)) \<and>
           rec_data r' = memcpyTo (rec_data r) (nat (snd (attrOffset schema i))) bs)"
proof (cases "dataTypes schema ! nat i")
  case DT_INT
  with set show ?thesis
    by (auto simp: setAttr_def attrSize_def sizeofInt_def intro!: exI [of _ "int_bytes (intV v)"])
next
  case DT_STRING
  with set show ?thesis
    by (auto simp: setAttr_def Let_def attrSize_def
             intro!: exI [of _ "bytesAt (mem(stringV v + nat (typeLength schema ! nat i) := 0))
                                  (stringV v) (nat (typeLength schema ! nat i))"])
next
  case DT_FLOAT
  with set show ?thesis
    by (auto simp: setAttr_def attrSize_def sizeofFloat_def intro!: exI [of _ "take 4 (floatBytes env (floatV v))"])
next
  case DT_BOOL
  with set show ?thesis
    by (auto simp: setAttr_def attrSize_def sizeofBool_def
             intro!: exI [of _ "take 2 (int_bytes (if boolV v then 1 else 0))"])
qed

lemma setAttr_frame:
  assumes wf: "wf_schema schema" and ij: "0 \<le> i" "0 \<le> j" "i < numAttr schema" "j < numAttr schema" "i \<noteq> j"
      and set: "setAttr env mem r schema i v = (rc, r', mem')"
  shows "bytesAt (rec_data r') (nat (snd (attrOffset schema j))) (nat (attrSize schema (nat j))) =
         bytesAt (rec_data r) (nat (snd (attrOffset schema j))) (nat (attrSize schema (nat j)))"
proof -
  obtain bs where bs: "length bs \<le> nat (attrSize schema (nat i))"
    "rec_data r' = memcpyTo (rec_data r) (nat (snd (attrOffset schema i))) bs"
    using setAttr_written [OF set] by blast
  have nn: "0 \<le> attrSize schema (nat i)" "0 \<le> attrSize schema (nat j)"
    using ij attrSize_nonneg [OF wf] by (metis nat_less_eq_zless)+
  have oo: "0 \<le> snd (attrOffset schema i)" "0 \<le> snd (attrOffset schema j)"
    using ij attrOffset_nonneg [OF wf] by simp_all
  have "nat (snd (attrOffset schema j)) + nat (attrSize schema (nat j)) \<le> nat (snd (attrOffset schema i)) \<or>
        nat (snd (attrOffset schema i)) + length bs \<le> nat (snd (attrOffset schema j))"
  proof (cases "i < j")
    case True
    then show ?thesis using attrs_apart [OF wf ij(1) True ij(4)] bs(1) nn oo by linarith
  next
    case False
    with ij have "j < i" by simp
    then show ?thesis using attrs_apart [OF wf ij(2) _ ij(3)] nn oo by linarith
  qed
  then show ?thesis by (simp add: bs(2) bytesAt_memcpyTo_apart)
qed

theorem setAttr_getAttr_int:
  assumes ty: "dataTypes schema ! nat i = DT_INT" and rng: "- (2 ^ 31) \<le> intV v" "intV v < 2 ^ 31"
      and set: "setAttr env mem r schema i v = (rc, r', mem')"
      and get: "getAttr env mem2 r' schema i = (rc2, v', mem3)"
  shows "rc2 = RC_OK \<and> dt v' = DT_INT \<and> intV v' = intV v"
proof -
  have "bytesAt (rec_data r') (nat (snd (attrOffset schema i))) 4 = int_bytes (intV v)"
    using set ty by (auto simp: setAttr_def Let_def)
  then show ?thesis
    using get ty le_int32_int_bytes [OF rng, of "[]"] by (auto simp: getAttr_def Let_def sizeofInt_def)
qed

lemma length_strncpyBytes [simp]: "length (strncpyBytes bs) = length bs"
  by (simp add: strncpyBytes_def Let_def length_takeWhile_le)

lemma takeWhile_nul [simp]: "takeWhile (\<lambda>b. b \<noteq> 0) (xs @ [0 :: byte]) = takeWhile (\<lambda>b. b \<noteq> 0) xs"
  by (induction xs) auto

lemma takeWhile_takeWhile_append: "takeWhile P (takeWhile P xs @ ys) = takeWhile P xs @ takeWhile P ys"
  by (induction xs) auto

lemma takeWhile_strncpyBytes: "takeWhile (\<lambda>b. b \<noteq> 0) (strncpyBytes bs) = takeWhile (\<lambda>b. b \<noteq> 0) bs"
  unfolding strncpyBytes_def Let_def
  by (cases "length bs - length (takeWhile (\<lambda>b. b \<noteq> 0) bs)")
     (simp_all add: takeWhile_takeWhile_append)

text \<open>C29: setAttr on a string attribute of length len stores the first len bytes of the caller's string (up to its NUL), and getAttr reads back exactly that string; setAttr also cuts the caller's own string at len by writing a NUL into it\<close>

theorem setAttr_getAttr_string:
  assumes ty: "dataTypes schema ! nat i = DT_STRING" and len: "len = nat (typeLength schema ! nat i)"
      and set: "setAttr env mem r schema i v = (rc, r', mem')"
      and get: "getAttr env mem' r' schema i = (rc2, v', mem'')"
  shows "takeWhile (\<lambda>b. b \<noteq> 0) (bytesAt mem'' (stringV v') (Suc len)) =
           takeWhile (\<lambda>b. b \<noteq> 0) (bytesAt mem (stringV v) len) \<and>
         takeWhile (\<lambda>b. b \<noteq> 0) (bytesAt mem' (stringV v) (Suc len)) =
           takeWhile (\<lambda>b. b \<noteq> 0) (bytesAt mem (stringV v) len)"
proof -
  have m: "mem' = mem(stringV v + len := 0)" using set ty len by (simp add: setAttr_def Let_def)
  have same: "bytesAt mem' (stringV v) len = bytesAt mem (stringV v) len"
    unfolding m by (rule bytesAt_cong) simp
  have w: "bytesAt (rec_data r') (nat (snd (attrOffset schema i))) len = bytesAt mem' (stringV v) len"
    using set ty len by (auto simp: setAttr_def Let_def)
  have "mem'' = memcpyTo mem' (freshStr env) (strncpyBytes (bytesAt mem' (stringV v) len) @ [0])"
       "stringV v' = freshStr env"
    using get ty len w by (auto simp: getAttr_def Let_def)
  moreover have "bytesAt mem' (stringV v) (Suc len) = bytesAt mem (stringV v) len @ [0]"
    using same by (simp add: bytesAt_def m)
  ultimately show ?thesis
    by (simp add: same takeWhile_strncpyBytes)
qed

text \<open>C28: setAttr on an int attribute refines the update of one slot of the abstract record: the list of attribute byte slices changes exactly at the attribute, which now holds the little-endian int, and every other attribute keeps its bytes\<close>

theorem setAttr_refines_update:
  assumes wf: "wf_schema schema" and i: "0 \<le> i" "i < numAttr schema"
      and ty: "dataTypes schema ! nat i = DT_INT"
      and set: "setAttr env mem r schema i v = (rc, r', mem')"
  shows "rc = RC_OK \<and> attrSlices schema r' = (attrSlices schema r)[nat i := int_bytes (intV v)]"
proof -
  have rd: "rec_data r' = memcpyTo (rec_data r) (nat (snd (attrOffset schema i))) (int_bytes (intV v))"
    using set ty by (auto simp: setAttr_def)
  have sz: "nat (attrSize schema (nat i)) = 4" using ty by (simp add: attrSize_def sizeofInt_def)
  have "attrSlices schema r' ! k = (attrSlices schema r)[nat i := int_bytes (intV v)] ! k"
    if k: "k < nat (numAttr schema)" for k
  proof (cases "k = nat i")
    case True
    then show ?thesis using k i by (simp add: attrSlices_def rd sz)
  next
    case False
    then have "int k \<noteq> i" using i by auto
    then show ?thesis
      using setAttr_frame [OF wf i(1) _ i(2) _ _ set, of "int k"] k False
      by (simp add: attrSlices_def)
  qed
  then show ?thesis
    using set by (intro conjI nth_equalityI) (auto simp: attrSlices_def setAttr_def ty)
qed

section \<open>The properties at concrete inputs\<close>

lemma attr_within_record_witness:
  "wf_schema demoSchema \<and> 0 \<le> (1 :: int) \<and> 1 < numAttr demoSchema \<and>
   0 \<le> snd (attrOffset demoSchema 1) \<and>
   snd (attrOffset demoSchema 1) + attrSize demoSchema (nat 1) \<le> getRecordSize demoSchema"
  using attr_within_record [where schema = demoSchema and i = 1]
  by (simp add: demoSchema_def createSchema_def wf_schema_def)

lemma setAttr_refines_update_witness:
  "wf_schema demoSchema \<and> 0 \<le> (0 :: int) \<and> 0 < numAttr demoSchema \<and>
   dataTypes demoSchema ! nat 0 = DT_INT \<and>
   fst (setAttr demoEnv demoMem (freshRecord demoEnv) demoSchema 0 (demoStr\<lparr>dt := DT_INT, intV := 7\<rparr>)) = RC_OK \<and>
   attrSlices demoSchema (fst (snd (setAttr demoEnv demoMem (freshRecord demoEnv) demoSchema 0
                                          (demoStr\<lparr>dt := DT_INT, intV := 7\<rparr>)))) =
     (attrSlices demoSchema (freshRecord demoEnv))[nat 0 := int_bytes 7]"
  using setAttr_refines_update
    [where schema = demoSchema and i = 0 and env = demoEnv and mem = demoMem and r = "freshRecord demoEnv"
       and v = "demoStr\<lparr>dt := DT_INT, intV := 7\<rparr>"
       and rc = "fst (setAttr demoEnv demoMem (freshRecord demoEnv) demoSchema 0 (demoStr\<lparr>dt := DT_INT, intV := 7\<rparr>))"
       and r' = "fst (snd (setAttr demoEnv demoMem (freshRecord demoEnv) demoSchema 0 (demoStr\<lparr>dt := DT_INT, intV := 7\<rparr>)))"
       and mem' = "snd (snd (setAttr demoEnv demoMem (freshRecord demoEnv) demoSchema 0 (demoStr\<lparr>dt := DT_INT, intV := 7\<rparr>)))"]
  by (simp add: demoSchema_def createSchema_def wf_schema_def demoStr_def)

lemma setAttr_getAttr_string_witness:
  "dataTypes demoSchema ! nat 1 = DT_STRING \<and> (4 :: nat) = nat (typeLength demoSchema ! nat 1) \<and>
   takeWhile (\<lambda>b. b \<noteq> 0)
     (bytesAt (snd (snd (getAttr demoEnv (snd (snd (setAttr demoEnv demoMem (freshRecord demoEnv) demoSchema 1 demoStr)))
                               (fst (snd (setAttr demoEnv demoMem (freshRecord demoEnv) demoSchema 1 demoStr))) demoSchema 1)))
        (stringV (fst (snd (getAttr demoEnv (snd (snd (setAttr demoEnv demoMem (freshRecord demoEnv) demoSchema 1 demoStr)))
                               (fst (snd (setAttr demoEnv demoMem (freshRecord demoEnv) demoSchema 1 demoStr))) demoSchema 1))))
        5) = map of_char ''hell''"
proof -
  let ?s = "setAttr demoEnv demoMem (freshRecord demoEnv) demoSchema 1 demoStr"
  let ?g = "getAttr demoEnv (snd (snd ?s)) (fst (snd ?s)) demoSchema 1"
  have ty: "dataTypes demoSchema ! nat 1 = DT_STRING" "(4 :: nat) = nat (typeLength demoSchema ! nat 1)"
    by (simp_all add: demoSchema_def createSchema_def)
  have "takeWhile (\<lambda>b. b \<noteq> 0) (bytesAt demoMem (stringV demoStr) 4) = map of_char ''hell''"
    by (simp add: demoMem_def demoStr_def bytesAt_def memcpyTo_def upt_rec)
  with setAttr_getAttr_string [OF ty, of demoEnv demoMem "freshRecord demoEnv" demoStr
         "fst ?s" "fst (snd ?s)" "snd (snd ?s)" "fst ?g" "fst (snd ?g)" "snd (snd ?g)"] ty
  show ?thesis by simp
qed

end
