(* ===== verification/RM_Deser.thy ===== *)
theory RM_Deser
  imports RM_Attr
begin

text \<open>
  The record parser of \<^verbatim>\<open>src/rm_deserializer.c\<close>. It splits a page's text
  with the C library's \<^verbatim>\<open>strtok\<close>, whose hidden saved pointer is explicit
  here: \<open>strtok delim s\<close> returns the token and the rest of the string
  after it, which the next \<^verbatim>\<open>strtok(NULL, ...)\<close> continues from. Texts are
  byte lists (a C string without its NUL); a \<^verbatim>\<open>NULL\<close> token is \<open>None\<close>,
  and a \<^verbatim>\<open>NULL\<close> token that the code then dereferences (\<^verbatim>\<open>strtol(NULL)\<close>,
  \<^verbatim>\<open>splitEnd[0]\<close>, \<^verbatim>\<open>strlen(NULL)\<close>) ends the run with \<open>None\<close>: a crash.
\<close>

section \<open>C library string functions\<close>

text \<open>\<^verbatim>\<open>strtok\<close> as glibc implements it: skip the delimiters, take the
  bytes up to the next delimiter, and continue after it; at the end of the
  string the saved pointer stays at the end and every later call returns
  \<^verbatim>\<open>NULL\<close>.\<close>

definition strtok :: "byte list \<Rightarrow> byte list \<Rightarrow> byte list option \<times> byte list" where
  "strtok delim s =
     (let s' = dropWhile (\<lambda>c. c \<in> set delim) s in
      if s' = [] then (None, [])
      else (Some (takeWhile (\<lambda>c. c \<notin> set delim) s'), drop 1 (dropWhile (\<lambda>c. c \<notin> set delim) s')))"

definition isspace :: "byte \<Rightarrow> bool" where
  "isspace c \<longleftrightarrow> c = 32 \<or> (9 \<le> c \<and> c \<le> 13)"

definition isdigit :: "byte \<Rightarrow> bool" where
  "isdigit c \<longleftrightarrow> 48 \<le> c \<and> c \<le> 57"

definition digitsValue :: "byte list \<Rightarrow> int" where
  "digitsValue ds = foldl (\<lambda>n c. 10 * n + (uint c - 48)) 0 ds"

definition LONG_MIN :: int where
  "LONG_MIN = - (2 ^ 63)"

definition LONG_MAX :: int where
  "LONG_MAX = 2 ^ 63 - 1"

text \<open>\<^verbatim>\<open>strtol(s, _, 10)\<close>: white space, a sign, the decimal digits;
  the result saturates at the bounds of a 64-bit \<^verbatim>\<open>long\<close>.\<close>

definition strtol :: "byte list \<Rightarrow> int" where
  "strtol s =
     (let t = dropWhile isspace s;
          neg = (take 1 t = lit ''-'');
          u = (if take 1 t = lit ''-'' \<or> take 1 t = lit ''+'' then drop 1 t else t);
          n = digitsValue (takeWhile isdigit u) in
      max LONG_MIN (min LONG_MAX (if neg then - n else n)))"

text \<open>The conversion of a \<^verbatim>\<open>long\<close> to a 32-bit \<^verbatim>\<open>int\<close> (modulo
  \<open>2\<^sup>3\<^sup>2\<close>, as gcc does).\<close>

definition int_of_long :: "int \<Rightarrow> int" where
  "int_of_long x = sint (word_of_int x :: 32 word)"

section \<open>deserializeRecord\<close>

text \<open>One round of the loop over the attributes: the name token up to
  \<^verbatim>\<open>:\<close>, the value token up to \<^verbatim>\<open>,\<close> (up to \<^verbatim>\<open>)\<close> for the last
  attribute), then a \<^verbatim>\<open>Value\<close> built by \<^verbatim>\<open>MAKE_VALUE\<close> or
  \<^verbatim>\<open>MAKE_STRING_VALUE\<close> (which copies the token into a fresh buffer) and
  stored with \<^verbatim>\<open>setAttr\<close>.\<close>

fun deserializeAttrs ::
  "RM_Env \<Rightarrow> Schema \<Rightarrow> int list \<Rightarrow> byte list \<Rightarrow> Record \<Rightarrow> buf \<Rightarrow> (Record \<times> buf) option" where
  "deserializeAttrs env schema [] rest record mem = Some (record, mem)"
| "deserializeAttrs env schema (i # is) rest record mem =
     (let rest1 = snd (strtok (lit '':'') rest);
          (splitEnd, rest2) = strtok (if i = numAttr schema - 1 then lit '')'' else lit '','') rest1;
          value = freshValue env in
      case splitEnd of
        None \<Rightarrow> None
      | Some tok \<Rightarrow>
          (let (record', mem') =
             (case dataTypes schema ! nat i of
                DT_INT \<Rightarrow> snd (setAttr env mem record schema i
                                  (value\<lparr>dt := DT_INT, intV := int_of_long (strtol tok)\<rparr>))
              | DT_FLOAT \<Rightarrow> snd (setAttr env mem record schema i
                                  (value\<lparr>dt := DT_FLOAT, floatV := strtof env tok\<rparr>))
              | DT_BOOL \<Rightarrow> snd (setAttr env mem record schema i
                                  (value\<lparr>dt := DT_BOOL, boolV := (take 1 tok = lit ''t'')\<rparr>))
              | DT_STRING \<Rightarrow> snd (setAttr env (memcpyTo mem (freshStr env) (tok @ [0])) record schema i
                                  (value\<lparr>dt := DT_STRING, stringV := freshStr env\<rparr>)))
           in deserializeAttrs env schema is rest2 record' mem'))"

text \<open>\<^verbatim>\<open>deserializeRecord\<close>: everything up to the first \<^verbatim>\<open>(\<close> is skipped,
  then the attributes \<open>0 .. numAttr - 1\<close> are read into a fresh record.\<close>

definition deserializeRecord :: "RM_Env \<Rightarrow> byte list \<Rightarrow> Schema \<Rightarrow> buf \<Rightarrow> (Record \<times> buf) option" where
  "deserializeRecord env str schema mem =
     deserializeAttrs env schema [0..numAttr schema - 1] (snd (strtok (lit ''('') str)) (freshRecord env) mem"

section \<open>deserializeSchema\<close>

text \<open>The loop over the attributes of \<^verbatim>\<open>deserializeSchema\<close>: the name up to
  \<^verbatim>\<open>:\<close> or blank, the type up to \<^verbatim>\<open>,\<close> or blank (\<^verbatim>\<open>)\<close> or blank for
  the last). \<^verbatim>\<open>INT\<close>, \<^verbatim>\<open>FLOAT\<close> and \<^verbatim>\<open>BOOL\<close> set the type and a
  length 0; any other type token is copied to \<^verbatim>\<open>splitString\<close> followed by
  the attribute's index, overwriting what an earlier one left there. A
  \<^verbatim>\<open>NULL\<close> name (\<^verbatim>\<open>strcpy\<close>) or type (\<^verbatim>\<open>strcmp\<close>) crashes.\<close>

primrec schemaAttrs ::
  "int \<Rightarrow> int list \<Rightarrow> byte list \<Rightarrow> byte list list \<times> DataType list \<times> int list \<times> byte list
     \<Rightarrow> ((byte list list \<times> DataType list \<times> int list \<times> byte list) \<times> byte list) option" where
  "schemaAttrs n [] rest acc = Some (acc, rest)"
| "schemaAttrs n (i # is) rest acc =
     (let (names, types, lens, splitString) = acc;
          (nameTok, rest1) = strtok (lit '': '') rest;
          (typeTok, rest2) = strtok (if i = n - 1 then lit '') '' else lit '', '') rest1;
          k = nat i in
      case nameTok of
        None \<Rightarrow> None
      | Some name \<Rightarrow>
          (case typeTok of
             None \<Rightarrow> None
           | Some ty \<Rightarrow>
               (let names' = names[k := name] in
                if ty = lit ''INT'' then schemaAttrs n is rest2 (names', types[k := DT_INT], lens[k := 0], splitString)
                else if ty = lit ''FLOAT'' then schemaAttrs n is rest2 (names', types[k := DT_FLOAT], lens[k := 0], splitString)
                else if ty = lit ''BOOL'' then schemaAttrs n is rest2 (names', types[k := DT_BOOL], lens[k := 0], splitString)
                else schemaAttrs n is rest2 (names', types, lens, ty @ decimal k))))"

text \<open>The key list: the tokens of the text between the parentheses, split at
  commas and blanks by a fresh \<^verbatim>\<open>strtok\<close> sequence.\<close>

function keyTokens :: "byte list \<Rightarrow> byte list list" where
  "keyTokens s = (case strtok (lit '', '') s of
                    (None, _) \<Rightarrow> []
                  | (Some k, rest) \<Rightarrow> k # keyTokens rest)"
  by pat_completeness auto
termination
proof (relation "measure length")
  fix s x y k
  assume "(x, y) = strtok (lit '', '') s" "x = Some k"
  then have st: "strtok (lit '', '') s = (Some k, y)" by simp
  define s' where "s' = dropWhile (\<lambda>c. c \<in> set (lit '', '')) s"
  have ne: "s' \<noteq> []" and r: "y = drop 1 (dropWhile (\<lambda>c. c \<notin> set (lit '', '')) s')"
    using st unfolding strtok_def s'_def Let_def by (simp_all split: if_splits)
  have "length (dropWhile (\<lambda>c. c \<notin> set (lit '', '')) s') \<le> length s'"
    by (rule length_dropWhile_le)
  moreover have "length s' \<le> length s" unfolding s'_def by (rule length_dropWhile_le)
  ultimately show "(y, s) \<in> measure length" using ne r by (cases s') auto
qed simp

text \<open>The index of the first attribute named \<open>key\<close>, or what fresh memory
  held at entry \<open>i\<close> of \<^verbatim>\<open>keyAttrs\<close>.\<close>

definition keyIndex :: "RM_Env \<Rightarrow> byte list list \<Rightarrow> nat \<Rightarrow> byte list \<Rightarrow> int" where
  "keyIndex env names i key =
     (case List.find (\<lambda>j. key = names ! j) [0..<length names] of
        Some j \<Rightarrow> int j
      | None \<Rightarrow> keyAttrs (freshSchema env) ! i)"

text \<open>The key phase: after the next \<^verbatim>\<open>(\<close> the text up to \<^verbatim>\<open>)\<close> is
  split into key names; without it the key fields keep what fresh memory
  held.\<close>

definition schemaKeys :: "RM_Env \<Rightarrow> byte list list \<Rightarrow> byte list \<Rightarrow> int list \<times> int" where
  "schemaKeys env names rest =
     (case strtok (lit ''('') rest of
        (None, _) \<Rightarrow> (keyAttrs (freshSchema env), keySize (freshSchema env))
      | (Some _, rest1) \<Rightarrow>
          (let ks = keyTokens (case strtok (lit '')'') rest1 of (Some s, _) \<Rightarrow> s | (None, rest2) \<Rightarrow> rest2) in
           (map (\<lambda>i. keyIndex env names i (ks ! i)) [0..<length ks], int (length ks))))"

text \<open>The string phase: \<^verbatim>\<open>splitString\<close>, if not empty, is split at
  \<^verbatim>\<open>[\<close>, \<^verbatim>\<open>]\<close> and \<^verbatim>\<open>=\<close> into \<^verbatim>\<open>STRING\<close>, the length and the index.
  The index is not checked: one outside \<open>0 .. numAttr - 1\<close> writes outside
  the arrays \<^verbatim>\<open>malloc\<close>'d for the schema, undefined behaviour, which is the
  failure \<open>None\<close> here, like the \<^verbatim>\<open>NULL\<close> tokens.\<close>

definition stringAttr :: "Schema \<Rightarrow> byte list \<Rightarrow> Schema option" where
  "stringAttr sch splitString =
     (if splitString = [] then Some sch
      else (case strtok (lit ''['') splitString of
              (None, _) \<Rightarrow> None
            | (Some s, st1) \<Rightarrow>
                if s \<noteq> lit ''STRING'' then Some sch
                else (case strtok (lit '']'') st1 of
                        (None, _) \<Rightarrow> None
                      | (Some v, st2) \<Rightarrow>
                          (case strtok (lit ''='') st2 of
                             (None, _) \<Rightarrow> None
                           | (Some ix, _) \<Rightarrow>
                               (let val = int_of_long (strtol v); index = int_of_long (strtol ix) in
                                if 0 \<le> index \<and> index < numAttr sch
                                then Some (sch\<lparr>dataTypes := (dataTypes sch)[nat index := DT_STRING],
                                               typeLength := (typeLength sch)[nat index := val]\<rparr>)
                                else None)))))"

text \<open>\<^verbatim>\<open>deserializeSchema\<close>: the attribute count between \<^verbatim>\<open><\<close> and
  \<^verbatim>\<open>>\<close>, the attributes after \<^verbatim>\<open>(\<close>, then the keys, then the one
  \<^verbatim>\<open>STRING[len]i\<close> left in \<^verbatim>\<open>splitString\<close>, which makes attribute \<open>i\<close> a
  string of length \<open>len\<close>. The arrays start as fresh memory.\<close>

definition deserializeSchema :: "RM_Env \<Rightarrow> byte list \<Rightarrow> Schema option" where
  "deserializeSchema env str =
     (let st1 = snd (strtok (lit ''<'') str); (numTok, st2) = strtok (lit ''>'') st1;
          fresh = freshSchema env in
      case numTok of
        None \<Rightarrow> None
      | Some nt \<Rightarrow>
          (let n = int_of_long (strtol nt); st3 = snd (strtok (lit ''('') st2);
               init = (replicate (nat n) [], map (\<lambda>k. dataTypes fresh ! k) [0..<nat n],
                       map (\<lambda>k. typeLength fresh ! k) [0..<nat n], junkString env) in
           case schemaAttrs n [0..n - 1] st3 init of
             None \<Rightarrow> None
           | Some ((names, types, lens, splitString), st4) \<Rightarrow>
               (let (keys, ksize) = schemaKeys env names st4 in
                stringAttr \<lparr>numAttr = n, attrNames = names, dataTypes = types, typeLength = lens,
                             keyAttrs = keys, keySize = ksize\<rparr> splitString)))"

section \<open>Lemmas\<close>

text \<open>A prefix without delimiters before a string that does not start with
  one is swallowed by the first token: the saved pointer ends up where it
  would have without the prefix.\<close>

lemma strtok_prefix:
  assumes "p \<noteq> []" "\<forall>c \<in> set p. c \<notin> set d" "s = [] \<or> hd s \<notin> set d"
  shows "snd (strtok d (p @ s)) = snd (strtok d s)"
proof -
  obtain c p' where p: "p = c # p'" using assms(1) by (cases p) auto
  have dw: "dropWhile (\<lambda>c. c \<notin> set d) (p @ s) = dropWhile (\<lambda>c. c \<notin> set d) s"
    using assms(2) by (induction p) auto
  show ?thesis
  proof (cases s)
    case Nil
    moreover have "dropWhile (\<lambda>c. c \<notin> set d) p' = []"
      using assms(2) p by (simp add: dropWhile_eq_Nil_conv)
    ultimately show ?thesis using assms(2) p by (simp add: strtok_def del: dropWhile_eq_Nil_conv)
  next
    case (Cons x xs)
    then show ?thesis using assms(2,3) p dw by (simp add: strtok_def)
  qed
qed

text \<open>The tombstone \<^verbatim>\<open>DELETED_RECORD\<close> before a text that does not start
  with \<^verbatim>\<open>(\<close> is swallowed with the text's own prefix by the first
  \<^verbatim>\<open>strtok(_, "(")\<close>: the record parses as without it.\<close>

lemma deserializeRecord_tombstone:
  assumes "s = [] \<or> hd s \<noteq> 40"
  shows "deserializeRecord env (lit ''DELETED_RECORD'' @ s) schema mem = deserializeRecord env s schema mem"
proof -
  have "snd (strtok (lit ''('') (lit ''DELETED_RECORD'' @ s)) = snd (strtok (lit ''('') s)"
    by (rule strtok_prefix) (use assms in auto)
  then show ?thesis by (simp add: deserializeRecord_def)
qed

lemma schemaAttrs_length:
  "schemaAttrs n is rest acc = Some ((names, types, lens, ss), rest') \<Longrightarrow>
     length names = length (fst acc) \<and> length types = length (fst (snd acc)) \<and>
     length lens = length (fst (snd (snd acc)))"
proof (induction "is" arbitrary: rest acc)
  case Nil
  then show ?case by auto
next
  case (Cons i "is")
  obtain nm ty ln s where acc: "acc = (nm, ty, ln, s)" by (cases acc) auto
  show ?case
    using Cons.prems Cons.IH
    by (auto simp: acc Let_def split: prod.splits option.splits if_splits)
qed

lemma stringAttr_shape:
  "stringAttr sch s = Some sch' \<Longrightarrow> numAttr sch' = numAttr sch \<and> attrNames sch' = attrNames sch \<and>
     length (dataTypes sch') = length (dataTypes sch) \<and> length (typeLength sch') = length (typeLength sch)"
  by (auto simp: stringAttr_def Let_def split: option.split_asm prod.split_asm if_split_asm)

lemma schemaAttrs_types:
  "schemaAttrs n is rest acc = Some ((names, types, lens, ss), rest') \<Longrightarrow>
     \<forall>k < length (fst (snd acc)). types ! k = fst (snd acc) ! k \<or> types ! k \<noteq> DT_STRING"
proof (induction "is" arbitrary: rest acc)
  case Nil
  then show ?case by auto
next
  case (Cons i "is")
  obtain nm ty ln s where acc: "acc = (nm, ty, ln, s)" by (cases acc) auto
  have upd: "types ! k = ty ! k \<or> types ! k \<noteq> DT_STRING"
    if "k < length ty" "x \<noteq> DT_STRING"
       "\<forall>k < length (ty[j := x]). types ! k = ty[j := x] ! k \<or> types ! k \<noteq> DT_STRING" for j x k
    using that nth_list_update_cases [OF that(1), of j x] by auto
  obtain nameTok rest1 where t1: "strtok (lit '': '') rest = (nameTok, rest1)" by fastforce
  obtain typeTok rest2 where t2: "strtok (if i = n - 1 then lit '') '' else lit '', '') rest1 = (typeTok, rest2)"
    by fastforce
  have "\<exists>acc'. schemaAttrs n is rest2 acc' = Some ((names, types, lens, ss), rest') \<and>
          (fst (snd acc') = ty \<or> (\<exists>x. x \<noteq> DT_STRING \<and> fst (snd acc') = ty[nat i := x]))"
  proof -
    have e: "schemaAttrs n (i # is) rest acc =
       (case nameTok of None \<Rightarrow> None | Some name \<Rightarrow> (case typeTok of None \<Rightarrow> None | Some ty0 \<Rightarrow>
          if ty0 = lit ''INT'' then schemaAttrs n is rest2 (nm[nat i := name], ty[nat i := DT_INT], ln[nat i := 0], s)
          else if ty0 = lit ''FLOAT'' then schemaAttrs n is rest2 (nm[nat i := name], ty[nat i := DT_FLOAT], ln[nat i := 0], s)
          else if ty0 = lit ''BOOL'' then schemaAttrs n is rest2 (nm[nat i := name], ty[nat i := DT_BOOL], ln[nat i := 0], s)
          else schemaAttrs n is rest2 (nm[nat i := name], ty, ln, ty0 @ decimal (nat i))))"
      by (simp only: schemaAttrs.simps acc Let_def t1 t2 prod.case)
    show ?thesis
      using Cons.prems unfolding e
      by (cases nameTok; cases typeTok) (auto simp del: decimal.simps split: if_split_asm)
  qed
  then obtain acc' where r: "schemaAttrs n is rest2 acc' = Some ((names, types, lens, ss), rest')"
      and a': "fst (snd acc') = ty \<or> (\<exists>x. x \<noteq> DT_STRING \<and> fst (snd acc') = ty[nat i := x])" by blast
  note ih = Cons.IH [OF r]
  show ?case
  proof (intro allI impI)
    fix k assume k: "k < length (fst (snd acc))"
    then have k': "k < length ty" by (simp add: acc)
    show "types ! k = fst (snd acc) ! k \<or> types ! k \<noteq> DT_STRING"
      using a'
    proof
      assume "fst (snd acc') = ty"
      then show ?thesis using ih k' by (simp add: acc)
    next
      assume "\<exists>x. x \<noteq> DT_STRING \<and> fst (snd acc') = ty[nat i := x]"
      then obtain x where "x \<noteq> DT_STRING" "fst (snd acc') = ty[nat i := x]" by blast
      then show ?thesis using upd [OF k'] ih by (simp add: acc)
    qed
  qed
qed


lemma stringAttr_types:
  "stringAttr sch s = Some sch' \<Longrightarrow> \<exists>idx. \<forall>k < length (dataTypes sch). dataTypes sch' ! k = dataTypes sch ! k \<or> k = idx"
  by (auto simp: stringAttr_def Let_def split: option.split_asm prod.split_asm if_split_asm)
     (metis nth_list_update_neq)

lemmas rm_parse_eval = deserializeSchema_def deserializeRecord_def strtok_def upto.simps strtol_def
  digitsValue_def isspace_def isdigit_def LONG_MIN_def LONG_MAX_def int_of_long_def
  replicate_numeral_Cons upt_rec Let_def schemaKeys_def stringAttr_def keyIndex_def

text \<open>deserializeSchema keeps one STRING attribute only: with two, the
  type token of the first is overwritten in splitString, so the first
  attribute keeps whatever the fresh dataTypes and typeLength arrays held and
  only the last becomes a string; a schema without keys keeps fresh memory as
  its key fields.\<close>

theorem deserializeSchema_two_strings:
  "deserializeSchema env (lit ''Schema with <2> attributes (a: STRING[4], b: STRING[8])'') =
     Some \<lparr>numAttr = 2, attrNames = [lit ''a'', lit ''b''],
           dataTypes = [dataTypes (freshSchema env) ! 0, DT_STRING],
           typeLength = [typeLength (freshSchema env) ! 0, 8],
           keyAttrs = keyAttrs (freshSchema env), keySize = keySize (freshSchema env)\<rparr>"
  by (simp add: rm_parse_eval)

lemma deserializeSchema_demo: "deserializeSchema demoEnv demoSchemaText = Some demoSchema"
  by (simp add: rm_parse_eval numeral_3_eq_3 demoEnv_def demoSchema_def createSchema_def demoSchemaText_def)

text \<open>C32: whatever text deserializeSchema parses, the schema it returns has
  name, type and length arrays of numAttr entries, and at most one attribute
  is typed DT_STRING where the fresh type array did not already hold it: the
  type token of every STRING attribute is written to splitString, each one
  overwriting the last, and only the last is applied.\<close>

theorem deserializeSchema_one_string:
  assumes "deserializeSchema env str = Some sch"
  shows "length (attrNames sch) = nat (numAttr sch) \<and> length (dataTypes sch) = nat (numAttr sch) \<and>
         length (typeLength sch) = nat (numAttr sch) \<and>
         card {i. i < nat (numAttr sch) \<and> dataTypes sch ! i = DT_STRING \<and>
                  dataTypes (freshSchema env) ! i \<noteq> DT_STRING} \<le> 1"
proof -
  obtain n names types lens ss rest rest' keys ksize where
    a: "schemaAttrs n [0..n - 1] rest (replicate (nat n) [], map (\<lambda>k. dataTypes (freshSchema env) ! k) [0..<nat n],
          map (\<lambda>k. typeLength (freshSchema env) ! k) [0..<nat n], junkString env) = Some ((names, types, lens, ss), rest')"
    and s: "stringAttr \<lparr>numAttr = n, attrNames = names, dataTypes = types, typeLength = lens,
                         keyAttrs = keys, keySize = ksize\<rparr> ss = Some sch"
    using assms unfolding deserializeSchema_def Let_def
    by (auto split: option.split_asm prod.split_asm)
  have la: "length names = nat n" "length types = nat n" "length lens = nat n"
    using schemaAttrs_length [OF a] by simp_all
  have sh: "numAttr sch = n" "length (attrNames sch) = nat n" "length (dataTypes sch) = nat n"
      "length (typeLength sch) = nat n"
    using stringAttr_shape [OF s] la by simp_all
  have ty: "\<forall>k < nat n. types ! k = dataTypes (freshSchema env) ! k \<or> types ! k \<noteq> DT_STRING"
    using schemaAttrs_types [OF a] by simp
  obtain idx where ix: "\<forall>k < nat n. dataTypes sch ! k = types ! k \<or> k = idx"
    using stringAttr_types [OF s] la by auto
  have "{i. i < nat (numAttr sch) \<and> dataTypes sch ! i = DT_STRING \<and>
            dataTypes (freshSchema env) ! i \<noteq> DT_STRING} \<subseteq> {idx}"
    using ty ix sh(1) by fastforce
  then have "card {i. i < nat (numAttr sch) \<and> dataTypes sch ! i = DT_STRING \<and>
            dataTypes (freshSchema env) ! i \<noteq> DT_STRING} \<le> card {idx}"
    by (rule card_mono [rotated]) simp
  then show ?thesis using sh by simp
qed

lemma deserializeSchema_one_string_witness:
  "deserializeSchema demoEnv demoSchemaText = Some demoSchema \<and>
   length (dataTypes demoSchema) = nat (numAttr demoSchema) \<and>
   card {i. i < nat (numAttr demoSchema) \<and> dataTypes demoSchema ! i = DT_STRING \<and>
            dataTypes (freshSchema demoEnv) ! i \<noteq> DT_STRING} \<le> 1"
  using deserializeSchema_demo deserializeSchema_one_string [OF deserializeSchema_demo] by simp


end
