(* ===== verification/RM_Table.thy ===== *)
theory RM_Table
  imports RM_Deser Buffer_Api "HOL-Library.Monad_Syntax"
begin

text \<open>
  Tables, records and scans of the record manager, \<^verbatim>\<open>src/record_mgr.c\<close>,
  on top of the buffer pool. A table is a page file: block 0 holds the
  serialized schema, block \<open>p \<ge> 1\<close> one record as the text the serializer
  made of it (a tombstoned record is that text behind
  \<^verbatim>\<open>DELETED_RECORD\<close>). Every record operation pins the record's page in the
  table's FIFO pool of 6 frames, rewrites the frame's text with
  \<^verbatim>\<open>memset\<close>/\<^verbatim>\<open>sprintf\<close>, marks it dirty, unpins it and forces it to the
  file. The open table's handle and the global \<^verbatim>\<open>totalPages\<close> form the
  state; the file system maps table names to page files.
\<close>

section \<open>State\<close>

type_synonym fileSystem = "string \<rightharpoonup> page list"

text \<open>The fields of \<^verbatim>\<open>RM_TableData\<close> (\<^verbatim>\<open>name\<close>, \<^verbatim>\<open>schema\<close>) and of its
  \<^verbatim>\<open>RM_RecordMgmt\<close> (\<^verbatim>\<open>bm\<close>, \<^verbatim>\<open>freePages[0]\<close>), the global
  \<^verbatim>\<open>totalPages\<close>, and the memory that string values point into.\<close>

record RM_State =
  relName :: string
  relSchema :: Schema
  rmPool :: BM_BufferPool
  freePages :: int
  totalPages :: int
  heap :: buf

text \<open>\<^verbatim>\<open>RM_ScanMgmt\<close>: the scan's condition is what \<^verbatim>\<open>evalExpr\<close> (of
  \<^verbatim>\<open>expr.c\<close>, not in the repository) makes of it for a record, \<open>None\<close> for a
  \<^verbatim>\<open>NULL\<close> condition.\<close>

record RM_ScanMgmt =
  condn :: "(Record \<Rightarrow> Schema \<Rightarrow> Value) option"
  currentRecord :: Record
  currentPage :: int
  currentSlot :: int

section \<open>Page text\<close>

text \<open>The C string a frame holds, and the frame after
  \<^verbatim>\<open>memset(page->data, '\0', strlen(page->data)); sprintf(page->data, "%s", s)\<close>.\<close>

definition cstr :: "page \<Rightarrow> byte list" where
  "cstr d = takeWhile (\<lambda>b. b \<noteq> 0) d"

definition sprintfPage :: "byte list \<Rightarrow> page \<Rightarrow> page" where
  "sprintfPage s d =
     (let n = length (cstr d); cleared = replicate n 0 @ drop n d in
      s @ [0] @ drop (length s + 1) cleared)"

text \<open>The sequence every record write makes: pin page \<open>p\<close> with a fresh
  handle, replace the text of its frame by \<open>f\<close> of the old text, mark it
  dirty, unpin it and force it. The return codes are ignored; a handle the pin
  left unset is written through, a crash (\<open>None\<close>).\<close>

definition rewritePage ::
  "BM_BufferPool \<Rightarrow> int \<Rightarrow> (byte list \<Rightarrow> byte list) \<Rightarrow> BM_BufferPool option" where
  "rewritePage pool p f =
     do { (_, pool1, h) \<leftarrow> pinPage pool noHandle p;
          i \<leftarrow> ph_data h;
          let d = data (frames pool1 ! i);
          let pool2 = clientWrite pool1 h (sprintfPage (f (cstr d)) d);
          (_, pool3) \<leftarrow> markDirty pool2 h;
          (_, pool4) \<leftarrow> unpinPage pool3 h;
          (_, pool5) \<leftarrow> forcePage pool4 h;
          Some pool5 }"

section \<open>Records\<close>

text \<open>The search loop of \<^verbatim>\<open>insertRecord\<close>: from page 1, step while the
  page is inside \<open>(0, totalPages)\<close>.\<close>

function insertScan :: "int \<Rightarrow> int \<Rightarrow> int" where
  "insertScan tp pg = (if 0 < pg \<and> pg < tp then insertScan tp (pg + 1) else pg)"
  by pat_completeness auto
termination by (relation "measure (\<lambda>(tp, pg). nat (tp - pg))") auto

text \<open>\<^verbatim>\<open>insertRecord\<close>: the record goes to the page the loop stops at, slot 0;
  \<^verbatim>\<open>freePages[0]\<close> and \<^verbatim>\<open>totalPages\<close> move on by one.\<close>

definition insertRecord :: "RM_Env \<Rightarrow> RM_State \<Rightarrow> Record \<Rightarrow> (RC \<times> RM_State \<times> Record) option" where
  "insertRecord env st record =
     (let p = insertScan (totalPages st) 1;
          record' = record\<lparr>rec_id := \<lparr>page = p, slot = 0\<rparr>\<rparr>;
          s = serializeRecord env record' (relSchema st) in
      do { pool' \<leftarrow> rewritePage (rmPool st) p (\<lambda>_. s);
           Some (RC_OK, st\<lparr>rmPool := pool', freePages := p + 1, totalPages := totalPages st + 1\<rparr>, record') })"

text \<open>\<^verbatim>\<open>deleteRecord\<close>: the tombstone: the page's text is prefixed with the 14
  characters \<^verbatim>\<open>DELETED_RECORD\<close>.\<close>

definition deleteRecord :: "RM_State \<Rightarrow> RID \<Rightarrow> (RC \<times> RM_State) option" where
  "deleteRecord st rid =
     (if 0 < page rid \<and> page rid \<le> totalPages st then
        do { pool' \<leftarrow> rewritePage (rmPool st) (page rid) (\<lambda>old. lit ''DELETED_RECORD'' @ old);
             Some (RC_OK, st\<lparr>rmPool := pool'\<rparr>) }
      else Some (RC_RM_NO_MORE_TUPLES, st))"

text \<open>\<^verbatim>\<open>updateRecord\<close>: refused when the caller's record data starts with
  \<^verbatim>\<open>DELETED_RECORD\<close> (\<^verbatim>\<open>strncmp(record->data, "DELETED_RECORD", 14)\<close>);
  otherwise the page's text becomes the serialized record.\<close>

definition updateRecord :: "RM_Env \<Rightarrow> RM_State \<Rightarrow> Record \<Rightarrow> (RC \<times> RM_State) option" where
  "updateRecord env st record =
     (let p = page (rec_id record) in
      if 0 < p \<and> p \<le> totalPages st then
        (if bytesAt (rec_data record) 0 14 = lit ''DELETED_RECORD''
         then Some (RC_RM_UPDATE_NOT_POSSIBLE_ON_DELETED_RECORD, st)
         else do { pool' \<leftarrow> rewritePage (rmPool st) p (\<lambda>_. serializeRecord env record (relSchema st));
                   Some (RC_OK, st\<lparr>rmPool := pool'\<rparr>) })
      else Some (RC_RM_NO_MORE_TUPLES, st))"

text \<open>\<^verbatim>\<open>getRecord\<close>: pin the page, parse a copy of its text, unpin; the
  caller's record gets the id and the parsed data.\<close>

definition getRecord :: "RM_Env \<Rightarrow> RM_State \<Rightarrow> RID \<Rightarrow> Record \<Rightarrow> (RC \<times> RM_State \<times> Record) option" where
  "getRecord env st rid record =
     (if 0 < page rid \<and> page rid \<le> totalPages st then
        do { (_, pool1, h) \<leftarrow> pinPage (rmPool st) noHandle (page rid);
             i \<leftarrow> ph_data h;
             (r, heap') \<leftarrow> deserializeRecord env (cstr (data (frames pool1 ! i))) (relSchema st) (heap st);
             (_, pool2) \<leftarrow> unpinPage pool1 h;
             Some (RC_OK, st\<lparr>rmPool := pool2, heap := heap'\<rparr>, record\<lparr>rec_id := rid, rec_data := rec_data r\<rparr>) }
      else Some (RC_RM_NO_MORE_TUPLES, st, record))"

text \<open>The loop of \<^verbatim>\<open>getNumTuples\<close>: from page 1 while the page is inside
  \<open>(0, totalPages)\<close>, a successful \<^verbatim>\<open>getRecord\<close> counts one and moves to the
  next page; an unsuccessful one would be retried on the same page.\<close>

function countLoop :: "RM_Env \<Rightarrow> RM_State \<Rightarrow> RID \<Rightarrow> Record \<Rightarrow> int \<Rightarrow> (int \<times> RM_State) option" where
  "countLoop env st rid record count =
     (if 0 < page rid \<and> page rid < totalPages st then
        (case getRecord env st rid record of
           None \<Rightarrow> None
         | Some (rc, st', record') \<Rightarrow>
             if rc = RC_OK then countLoop env st' \<lparr>page = page rid + 1, slot = 0\<rparr> record' (count + 1)
             else countLoop env st' rid record' count)
      else Some (count, st))"
  by pat_completeness auto
termination
  by (relation "measure (\<lambda>(env, st, rid, record, count). nat (totalPages st - page rid))")
     (auto simp: getRecord_def bind_eq_Some_conv split: prod.splits)

definition getNumTuples :: "RM_Env \<Rightarrow> RM_State \<Rightarrow> (int \<times> RM_State) option" where
  "getNumTuples env st = countLoop env st \<lparr>page = 1, slot = 0\<rparr> (freshRecord env) 0"

section \<open>Scans\<close>

definition startScan :: "RM_Env \<Rightarrow> (Record \<Rightarrow> Schema \<Rightarrow> Value) option \<Rightarrow> RC \<times> RM_ScanMgmt" where
  "startScan env cond =
     (RC_OK, \<lparr>condn = cond, currentRecord = freshRecord env, currentPage = 1, currentSlot = 0\<rparr>)"

text \<open>The loop of \<^verbatim>\<open>next\<close> under a condition: read the record at the current
  page and move the page on; return it if the condition evaluates to a
  \<^verbatim>\<open>DT_BOOL\<close> true, else go on. At the end the page is reset to 1.\<close>

function scanLoop ::
  "RM_Env \<Rightarrow> (Record \<Rightarrow> Schema \<Rightarrow> Value) \<Rightarrow> RM_State \<Rightarrow> RM_ScanMgmt \<Rightarrow> Record
     \<Rightarrow> (RC \<times> RM_State \<times> RM_ScanMgmt \<times> Record) option" where
  "scanLoop env cond st sc out =
     (let cp = currentPage sc in
      if 0 < cp \<and> cp < totalPages st then
        (case getRecord env st \<lparr>page = cp, slot = currentSlot sc\<rparr> (currentRecord sc) of
           None \<Rightarrow> None
         | Some (_, st', cr) \<Rightarrow>
             (let result = cond cr (relSchema st'); sc' = sc\<lparr>currentRecord := cr, currentPage := cp + 1\<rparr> in
              if dt result = DT_BOOL \<and> boolV result
              then Some (RC_OK, st', sc', out\<lparr>rec_data := rec_data cr, rec_id := rec_id cr\<rparr>)
              else scanLoop env cond st' sc' out))
      else Some (RC_RM_NO_MORE_TUPLES, st, sc\<lparr>currentPage := 1\<rparr>, out))"
  by pat_completeness auto
termination
  by (relation "measure (\<lambda>(env, cond, st, sc, out). nat (totalPages st - currentPage sc))")
     (auto simp: getRecord_def bind_eq_Some_conv split: prod.splits)

text \<open>\<^verbatim>\<open>next\<close>: without a condition the \<^verbatim>\<open>while\<close> returns in its first
  round, with the record at the current page whatever \<^verbatim>\<open>getRecord\<close>
  returned.\<close>

definition next_rm ::
  "RM_Env \<Rightarrow> RM_State \<Rightarrow> RM_ScanMgmt \<Rightarrow> Record \<Rightarrow> (RC \<times> RM_State \<times> RM_ScanMgmt \<times> Record) option" where
  "next_rm env st sc out =
     (case condn sc of
        None \<Rightarrow>
          (let cp = currentPage sc in
           if 0 < cp \<and> cp < totalPages st then
             do { (_, st', cr) \<leftarrow> getRecord env st \<lparr>page = cp, slot = currentSlot sc\<rparr> (currentRecord sc);
                  Some (RC_OK, st', sc\<lparr>currentRecord := cr, currentPage := cp + 1\<rparr>,
                        out\<lparr>rec_data := rec_data cr, rec_id := rec_id cr\<rparr>) }
           else Some (RC_RM_NO_MORE_TUPLES, st, sc\<lparr>currentPage := 1\<rparr>, out))
      | Some cond \<Rightarrow> scanLoop env cond st sc out)"

text \<open>A client of the scan: \<open>n\<close> calls of \<^verbatim>\<open>next\<close> at most, collecting the
  ids of the records returned while it returns \<open>RC_OK\<close>, and stopping at the
  first other code (\<^verbatim>\<open>while ((rc = next(scan, r)) == RC_OK)\<close>).\<close>

fun scanClient ::
  "nat \<Rightarrow> RM_Env \<Rightarrow> RM_State \<Rightarrow> RM_ScanMgmt \<Rightarrow> Record \<Rightarrow> (RID list \<times> RC \<times> RM_State \<times> RM_ScanMgmt) option" where
  "scanClient 0 env st sc out = None"
| "scanClient (Suc n) env st sc out =
     do { (rc, st', sc', out') \<leftarrow> next_rm env st sc out;
          if rc = RC_OK then
            do { (ids, rc', st'', sc'') \<leftarrow> scanClient n env st' sc' out';
                 Some (rec_id out' # ids, rc', st'', sc'') }
          else Some ([], rc, st', sc') }"

section \<open>Tables\<close>

text \<open>\<^verbatim>\<open>createPageFile\<close> of the storage manager (not in the repository):
  a file of one zero block.\<close>

definition createPageFile :: "page list" where
  "createPageFile = [emptyPage]"

text \<open>\<^verbatim>\<open>createTable\<close>: refused if the name exists (\<^verbatim>\<open>access\<close>); otherwise
  a new page file whose block 0 is written from the serialized schema (the
  \<open>PAGE_SIZE\<close> bytes from the string's start: the string, its NUL, and what
  follows it in memory, taken to be zero).\<close>

definition schemaPage :: "byte list \<Rightarrow> page" where
  "schemaPage s = take PAGE_SIZE (s @ replicate PAGE_SIZE 0)"

definition createTable :: "RM_Env \<Rightarrow> fileSystem \<Rightarrow> string \<Rightarrow> Schema \<Rightarrow> RC \<times> fileSystem" where
  "createTable env fs name schema =
     (if name \<in> dom fs then (RC_TABLE_ALREADY_EXISTS, fs)
      else (case writeBlock 0 (schemaPage (serializeSchema env schema)) createPageFile of
              Inl _ \<Rightarrow> (RC_WRITE_FAILED, fs(name \<mapsto> createPageFile))
            | Inr f \<Rightarrow> (RC_OK, fs(name \<mapsto> f))))"

text \<open>The header read of \<^verbatim>\<open>openTable\<close>: \<^verbatim>\<open>fgets\<close> of at most
  \<open>PAGE_SIZE - 1\<close> bytes from the start of the file, up to a newline or a
  NUL, then \<^verbatim>\<open>atoi\<close>. The bytes at the start of the file are those of the
  storage manager's on-disk layout, which is not in the repository: they are
  \<open>fileBytes env f\<close> for a file of blocks \<open>f\<close>.\<close>

definition readHeader :: "RM_Env \<Rightarrow> page list \<Rightarrow> int" where
  "readHeader env f = int_of_long (strtol (takeWhile (\<lambda>b. b \<noteq> 10) (cstr (take (PAGE_SIZE - 1) (fileBytes env f)))))"

text \<open>\<^verbatim>\<open>openTable\<close>: \<^verbatim>\<open>totalPages\<close> is read from the file's header; a
  FIFO pool of 6 frames is opened on the file, page 0 is pinned (and never
  unpinned) and its text parsed into the schema. A missing file crashes
  \<^verbatim>\<open>fgets\<close>.\<close>

definition openTable :: "RM_Env \<Rightarrow> fileSystem \<Rightarrow> buf \<Rightarrow> string \<Rightarrow> RM_State option" where
  "openTable env fs mem name =
     do { f \<leftarrow> fs name;
          let tp = readHeader env f;
          (_, pool, h) \<leftarrow> pinPage (initBufferPool f 6 RS_FIFO) noHandle 0;
          i \<leftarrow> ph_data h;
          sch \<leftarrow> deserializeSchema env (cstr (data (frames pool ! i)));
          Some \<lparr>relName = name, relSchema = sch, rmPool = pool, freePages = tp, totalPages = tp, heap = mem\<rparr> }"

text \<open>\<^verbatim>\<open>closeTable\<close>: the pool is shut down; the file system keeps the file
  the pool leaves.\<close>

definition closeTable :: "fileSystem \<Rightarrow> RM_State \<Rightarrow> RC \<times> fileSystem" where
  "closeTable fs st = (RC_OK, fs(relName st \<mapsto> snd (shutdownBufferPool (rmPool st))))"

definition deleteTable :: "fileSystem \<Rightarrow> string \<Rightarrow> RC \<times> fileSystem" where
  "deleteTable fs name = (if name \<in> dom fs then (RC_OK, fs(name := None)) else (RC_FILE_NOT_FOUND, fs))"

section \<open>Functions without effect on the model\<close>

text \<open>\<^verbatim>\<open>initRecordManager\<close> and \<^verbatim>\<open>shutdownRecordManager\<close> only return;
  \<^verbatim>\<open>closeScan\<close>, \<^verbatim>\<open>freeRecord\<close> and \<^verbatim>\<open>freeSchema\<close> only free memory
  (or set a pointer to \<^verbatim>\<open>NULL\<close> before freeing it); \<^verbatim>\<open>createRecord\<close>
  returns a fresh record whose id and data are uninitialised.\<close>

definition initRecordManager :: RC where
  "initRecordManager = RC_OK"

definition shutdownRecordManager :: RC where
  "shutdownRecordManager = RC_OK"

definition closeScan :: RC where
  "closeScan = RC_OK"

definition createRecord :: "RM_Env \<Rightarrow> Schema \<Rightarrow> RC \<times> Record" where
  "createRecord env schema = (RC_OK, freshRecord env)"

definition freeRecord :: RC where
  "freeRecord = RC_OK"

definition freeSchema :: RC where
  "freeSchema = RC_OK"

section \<open>Table conditions\<close>

text \<open>The conditions under which the record loops run to their end: every
  page from 1 to \<open>totalPages - 1\<close> is resident in the table's pool, and
  the text of every frame parses as a record of the schema.\<close>

definition pages_resident :: "RM_State \<Rightarrow> bool" where
  "pages_resident st \<longleftrightarrow>
     (\<forall>p. 0 < p \<and> p < totalPages st \<longrightarrow> (\<exists>i < nframes (rmPool st). pageNum (frames (rmPool st) ! i) = p))"

definition pages_parse :: "RM_Env \<Rightarrow> RM_State \<Rightarrow> bool" where
  "pages_parse env st \<longleftrightarrow>
     (\<forall>i < nframes (rmPool st). \<forall>mem. deserializeRecord env (cstr (data (frames (rmPool st) ! i))) (relSchema st) mem \<noteq> None)"

section \<open>Concrete tables\<close>

text \<open>A table of one resident record page in a one-frame FIFO pool, for
  the witnesses.\<close>

definition demoRMPool :: "page \<Rightarrow> BM_BufferPool" where
  "demoRMPool d = \<lparr>pageFile = [[0], [0]], numPages = 1, strategy = RS_FIFO,
     frames = [\<lparr>pageNum = 1, dirtyFlag = False, fixCount = 0, refBit = False, data = d\<rparr>],
     head = 0, tail = 0, occupiedCount = 1, numRead = 0, numWrite = 0\<rparr>"

definition demoRM :: "int \<Rightarrow> page \<Rightarrow> RM_State" where
  "demoRM tp d = \<lparr>relName = ''t'', relSchema = demoSchema, rmPool = demoRMPool d, freePages = tp,
     totalPages = tp, heap = demoMem\<rparr>"

definition demoRecPage :: page where
  "demoRecPage = lit ''[1-0] (a:5,b:xy,c:1)'' @ [0]"

declare insertScan.simps [simp del] countLoop.simps [simp del] scanLoop.simps [simp del]

section \<open>Page writes\<close>

lemma pinPage_resident:
  assumes wf: "wf_pool pool" and i: "i < nframes pool" "pageNum (frames pool ! i) = p" "p \<noteq> NO_PAGE"
  shows "\<exists>pool' rb. pinPage pool h p = Some (RC_OK, pool', h\<lparr>ph_pageNum := p, ph_data := Some i\<rparr>) \<and>
           wf_pool pool' \<and> pageFile pool' = pageFile pool \<and> numWrite pool' = numWrite pool \<and>
           frames pool' = (frames pool)[i := (frames pool ! i)\<lparr>refBit := rb, fixCount := fixCount (frames pool ! i) + 1\<rparr>]"
proof -
  have f: "findPage pool p = Some (Found i)" using findPage_unique [OF assms] .
  obtain pool' rb where eq: "pinPage pool h p = Some (RC_OK, pool', h\<lparr>ph_pageNum := p, ph_data := Some i\<rparr>)"
    and fr: "frames pool' = (frames pool)[i := (frames pool ! i)\<lparr>refBit := rb, fixCount := fixCount (frames pool ! i) + 1\<rparr>]"
    and pf: "pageFile pool' = pageFile pool" "numWrite pool' = numWrite pool"
  proof (cases "strategy pool")
    case RS_FIFO
    then show ?thesis
      using f that [of "pool\<lparr>frames := (frames pool)[i := (frames pool ! i)\<lparr>fixCount := fixCount (frames pool ! i) + 1\<rparr>]\<rparr>"
                       "refBit (frames pool ! i)"]
      by (simp add: pinPage_def pinPageFIFO_def pinHit_def Let_def)
  next
    case RS_LRU
    then show ?thesis
      using f that [of "pool\<lparr>frames := (frames pool)[i := (frames pool ! i)\<lparr>fixCount := fixCount (frames pool ! i) + 1\<rparr>],
                             tail := nxt (nframes pool) (head pool), head := i\<rparr>"
                       "refBit (frames pool ! i)"]
      by (simp add: pinPage_def pinPageLRU_def pinHit_def Let_def)
  next
    case RS_CLOCK
    then show ?thesis
      using f that [of "pool\<lparr>frames := (frames pool)[i := (frames pool ! i)\<lparr>refBit := True, fixCount := fixCount (frames pool ! i) + 1\<rparr>]\<rparr>"
                       True]
      by (simp add: pinPage_def pinPageCLOCK_def Let_def)
  qed
  then show ?thesis using eq fr pf wf_pinPage_strategy [OF wf eq] by blast
qed

lemma rewritePage_resident:
  assumes wf: "wf_pool pool" and i: "i < nframes pool" "pageNum (frames pool ! i) = p" "0 \<le> p"
      and inf: "nat p < length (pageFile pool)"
  shows "\<exists>pool' rb. rewritePage pool p f = Some pool' \<and> wf_pool pool' \<and>
           pageFile pool' = (pageFile pool)[nat p := sprintfPage (f (cstr (data (frames pool ! i)))) (data (frames pool ! i))] \<and>
           frames pool' = (frames pool)[i := (frames pool ! i)\<lparr>refBit := rb,
              data := sprintfPage (f (cstr (data (frames pool ! i)))) (data (frames pool ! i)), dirtyFlag := False\<rparr>]"
proof -
  define d where "d = data (frames pool ! i)"
  define D where "D = sprintfPage (f (cstr d)) d"
  define h where "h = noHandle\<lparr>ph_pageNum := p, ph_data := Some i\<rparr>"
  have np: "p \<noteq> NO_PAGE" using i(3) by (simp add: NO_PAGE_def)
  have hp: "ph_pageNum h = p" "ph_data h = Some i" by (simp_all add: h_def)
  obtain pool1 rb where pin: "pinPage pool noHandle p = Some (RC_OK, pool1, h)" and wf1: "wf_pool pool1"
    and pf1: "pageFile pool1 = pageFile pool"
    and fr1: "frames pool1 = (frames pool)[i := (frames pool ! i)\<lparr>refBit := rb, fixCount := fixCount (frames pool ! i) + 1\<rparr>]"
    using pinPage_resident [OF wf i(1,2) np, of noHandle] unfolding h_def by blast
  have d1: "data (frames pool1 ! i) = d" using fr1 i(1) by (simp add: d_def)
  define pool2 where "pool2 = clientWrite pool1 h D"
  have fr2: "frames pool2 = (frames pool1)[i := (frames pool1 ! i)\<lparr>data := D\<rparr>]" "pageFile pool2 = pageFile pool"
    by (simp_all add: pool2_def clientWrite_def hp pf1)
  have wf2: "wf_pool pool2" unfolding pool2_def using wf_clientWrite [OF wf1] .
  have n2: "i < nframes pool2" "pageNum (frames pool2 ! i) = ph_pageNum h"
    using fr2 fr1 i by (simp_all add: hp)
  define pool3 where "pool3 = pool2\<lparr>frames := (frames pool2)[i := (frames pool2 ! i)\<lparr>dirtyFlag := True\<rparr>]\<rparr>"
  have md: "markDirty pool2 h = Some (RC_OK, pool3)"
    using markDirty_resident [OF wf2 n2] np by (simp add: pool3_def hp)
  have wf3: "wf_pool pool3" using wf_markDirty [OF wf2, of h] md by auto
  have n3: "i < nframes pool3" "pageNum (frames pool3 ! i) = ph_pageNum h" using n2 by (simp_all add: pool3_def)
  define pool4 where "pool4 = pool3\<lparr>frames := (frames pool3)[i := (frames pool3 ! i)\<lparr>fixCount := fixCount (frames pool3 ! i) - 1\<rparr>]\<rparr>"
  have up: "unpinPage pool3 h = Some (RC_OK, pool4)"
    using unpinPage_resident [OF wf3 n3] np by (simp add: pool4_def hp)
  have wf4: "wf_pool pool4" using wf_unpinPage [OF wf3, of h] up by auto
  have n4: "i < nframes pool4" "pageNum (frames pool4 ! i) = ph_pageNum h" "dirtyFlag (frames pool4 ! i)"
    using n3 by (simp_all add: pool4_def pool3_def)
  have dat4: "data (frames pool4 ! i) = D" and file4: "pageFile pool4 = pageFile pool"
    using fr2 n2(1) by (simp_all add: pool4_def pool3_def)
  have wb: "writeBlock p D (pageFile pool) = Inr ((pageFile pool)[nat p := D])"
    using inf i(3) by (simp add: writeBlock_def)
  define pool5 where "pool5 = pool4\<lparr>pageFile := (pageFile pool)[nat p := D], numWrite := numWrite pool4 + 1,
                                     frames := (frames pool4)[i := (frames pool4 ! i)\<lparr>dirtyFlag := False\<rparr>]\<rparr>"
  have fp: "forcePage pool4 h = Some (RC_OK, pool5)"
    using forcePage_dirty [OF wf4 n4(1,2,3)] np by (simp add: hp dat4 file4 wb pool5_def)
  have wf5: "wf_pool pool5" using wf_forcePage [OF wf4, of h] fp by auto
  have "rewritePage pool p f = Some pool5"
    by (simp add: rewritePage_def pin hp d1 D_def [symmetric] pool2_def [symmetric] md up fp)
  moreover have "frames pool5 = (frames pool)[i := (frames pool ! i)\<lparr>refBit := rb, data := D, dirtyFlag := False\<rparr>]"
    using i(1) by (simp add: pool5_def pool4_def pool3_def fr2 fr1)
  moreover have "pageFile pool5 = (pageFile pool)[nat p := D]" by (simp add: pool5_def)
  ultimately show ?thesis using wf5 by (auto simp: D_def d_def)
qed

lemma getRecord_resident:
  assumes wf: "wf_pool (rmPool st)" and i: "i < nframes (rmPool st)" "pageNum (frames (rmPool st) ! i) = page rid"
      and rng: "0 < page rid" "page rid \<le> totalPages st"
  shows "\<exists>pool'. wf_pool pool' \<and> map pageNum (frames pool') = map pageNum (frames (rmPool st)) \<and>
           map data (frames pool') = map data (frames (rmPool st)) \<and>
           getRecord env st rid r =
           map_option (\<lambda>(rr, heap'). (RC_OK, st\<lparr>rmPool := pool', heap := heap'\<rparr>, r\<lparr>rec_id := rid, rec_data := rec_data rr\<rparr>))
             (deserializeRecord env (cstr (data (frames (rmPool st) ! i))) (relSchema st) (heap st))"
proof -
  have np: "page rid \<noteq> NO_PAGE" using rng(1) by (simp add: NO_PAGE_def)
  obtain pool1 rb where pin: "pinPage (rmPool st) noHandle (page rid) =
      Some (RC_OK, pool1, noHandle\<lparr>ph_pageNum := page rid, ph_data := Some i\<rparr>)" and wf1: "wf_pool pool1"
    and fr1: "frames pool1 = (frames (rmPool st))[i := (frames (rmPool st) ! i)\<lparr>refBit := rb,
               fixCount := fixCount (frames (rmPool st) ! i) + 1\<rparr>]"
    using pinPage_resident [OF wf i np, of noHandle] by blast
  have i1: "i < nframes pool1" "pageNum (frames pool1 ! i) = page rid" using fr1 i by simp_all
  define pool2 where "pool2 = pool1\<lparr>frames := (frames pool1)[i := (frames pool1 ! i)\<lparr>fixCount := fixCount (frames pool1 ! i) - 1\<rparr>]\<rparr>"
  have up: "unpinPage pool1 (noHandle\<lparr>ph_pageNum := page rid, ph_data := Some i\<rparr>) = Some (RC_OK, pool2)"
    using unpinPage_resident [OF wf1 i1(1), of "noHandle\<lparr>ph_pageNum := page rid, ph_data := Some i\<rparr>"] i1(2) np
    by (simp add: pool2_def)
  have wf2: "wf_pool pool2" using wf_unpinPage [OF wf1, of "noHandle\<lparr>ph_pageNum := page rid, ph_data := Some i\<rparr>"] up by auto
  have sh: "map pageNum (frames pool2) = map pageNum (frames (rmPool st))"
           "map data (frames pool2) = map data (frames (rmPool st))"
    using i(1) by (simp_all add: pool2_def fr1 map_update list_update_same_conv)
  have d1: "data (frames pool1 ! i) = data (frames (rmPool st) ! i)" using fr1 i(1) by simp
  show ?thesis
    using rng wf2 sh
    by (intro exI [of _ pool2],
        cases "deserializeRecord env (cstr (data (frames (rmPool st) ! i))) (relSchema st) (heap st)")
       (auto simp: getRecord_def pin d1 up)
qed

lemma takeWhile_nul_tail: "0 \<notin> set s \<Longrightarrow> takeWhile (\<lambda>b. b \<noteq> 0) (s @ 0 # xs) = (s :: byte list)"
  by (induction s) auto

lemma cstr_sprintfPage: "0 \<notin> set s \<Longrightarrow> cstr (sprintfPage s d) = s"
  by (simp add: cstr_def sprintfPage_def Let_def takeWhile_nul_tail)

lemma zero_notin_cstr [simp]: "0 \<notin> set (cstr d)"
  unfolding cstr_def by (metis (mono_tags) set_takeWhileD)

lemma wf_demoRMPool: "wf_pool (demoRMPool d)"
  by (simp add: wf_pool_def demoRMPool_def distinct_pages_def NO_PAGE_def)

lemma wf_demoRM: "wf_pool (rmPool (demoRM tp d))"
  by (simp add: demoRM_def wf_demoRMPool)

text \<open>C23: deleteRecord does not hide a record: it prefixes the page text with
  the tombstone DELETED_RECORD, but getRecord parses the page with
  strtok(_, "("), which swallows the tombstone with the text before the
  first parenthesis. Deleting a resident record and reading it back gives the
  record data read before the delete.\<close>

theorem deleted_record_still_read:
  assumes wf: "wf_pool (rmPool st)" and i: "i < nframes (rmPool st)" "pageNum (frames (rmPool st) ! i) = page rid"
      and rng: "0 < page rid" "page rid \<le> totalPages st" and inf: "nat (page rid) < length (pageFile (rmPool st))"
      and ptxt: "cstr (data (frames (rmPool st) ! i)) = [] \<or> hd (cstr (data (frames (rmPool st) ! i))) \<noteq> 40"
  shows "\<exists>st'. deleteRecord st rid = Some (RC_OK, st') \<and>
           map_option (\<lambda>(rc, _, r'). (rc, rec_data r')) (getRecord env st' rid r) =
           map_option (\<lambda>(rc, _, r'). (rc, rec_data r')) (getRecord env st rid r)"
proof -
  let ?s = "cstr (data (frames (rmPool st) ! i))"
  obtain pool' rb where rw: "rewritePage (rmPool st) (page rid) (\<lambda>old. lit ''DELETED_RECORD'' @ old) = Some pool'"
    and wf': "wf_pool pool'"
    and fr: "frames pool' = (frames (rmPool st))[i := (frames (rmPool st) ! i)\<lparr>refBit := rb,
               data := sprintfPage (lit ''DELETED_RECORD'' @ ?s) (data (frames (rmPool st) ! i)), dirtyFlag := False\<rparr>]"
    using rewritePage_resident [OF wf i less_imp_le [OF rng(1)] inf] by blast
  define st' where "st' = st\<lparr>rmPool := pool'\<rparr>"
  have "0 < page rid \<and> page rid \<le> totalPages st" using rng by simp
  then have del: "deleteRecord st rid = Some (RC_OK, st')"
    unfolding deleteRecord_def st'_def by (simp only: rw if_True conj_absorb Option.bind.simps)
  have i': "i < nframes (rmPool st')" "pageNum (frames (rmPool st') ! i) = page rid" using fr i by (simp_all add: st'_def)
  have ptxt': "cstr (data (frames (rmPool st') ! i)) = lit ''DELETED_RECORD'' @ ?s"
    using i(1) by (simp add: st'_def fr cstr_sprintfPage)
  obtain p1 where g1: "getRecord env st' rid r = map_option (\<lambda>(rr, heap'). (RC_OK, st'\<lparr>rmPool := p1, heap := heap'\<rparr>,
        r\<lparr>rec_id := rid, rec_data := rec_data rr\<rparr>)) (deserializeRecord env (cstr (data (frames (rmPool st') ! i))) (relSchema st') (heap st'))"
    using getRecord_resident [of st' i rid env r] wf' i' rng by (auto simp: st'_def)
  obtain p0 where g0: "getRecord env st rid r = map_option (\<lambda>(rr, heap'). (RC_OK, st\<lparr>rmPool := p0, heap := heap'\<rparr>,
        r\<lparr>rec_id := rid, rec_data := rec_data rr\<rparr>)) (deserializeRecord env ?s (relSchema st) (heap st))"
    using getRecord_resident [OF wf i rng, of env r] by blast
  show ?thesis
    using del g0 g1 ptxt' deserializeRecord_tombstone [OF ptxt]
    by (auto simp: st'_def option.map_comp comp_def case_prod_beta)
qed

lemma deleted_record_still_read_witness:
  "\<exists>st'. deleteRecord (demoRM 1 demoRecPage) \<lparr>page = 1, slot = 0\<rparr> = Some (RC_OK, st') \<and>
     map_option (\<lambda>(rc, _, r'). (rc, rec_data r')) (getRecord demoEnv st' \<lparr>page = 1, slot = 0\<rparr> (freshRecord demoEnv)) =
     map_option (\<lambda>(rc, _, r'). (rc, rec_data r'))
       (getRecord demoEnv (demoRM 1 demoRecPage) \<lparr>page = 1, slot = 0\<rparr> (freshRecord demoEnv))"
  by (rule deleted_record_still_read [OF wf_demoRM, of 0]) (simp_all add: demoRM_def demoRMPool_def demoRecPage_def cstr_def)

text \<open>C25: updateRecord checks for the tombstone in the caller's record, not on
  the page: a record whose page holds a deleted record is updated, the
  tombstone is overwritten, and the page holds the new serialized record.\<close>

theorem update_deleted_allowed:
  assumes wf: "wf_pool (rmPool st)" and i: "i < nframes (rmPool st)" "pageNum (frames (rmPool st) ! i) = page (rec_id record)"
      and rng: "0 < page (rec_id record)" "page (rec_id record) \<le> totalPages st"
      and inf: "nat (page (rec_id record)) < length (pageFile (rmPool st))"
      and tomb: "take 14 (cstr (data (frames (rmPool st) ! i))) = lit ''DELETED_RECORD''"
      and caller: "bytesAt (rec_data record) 0 14 \<noteq> lit ''DELETED_RECORD''"
      and nz: "0 \<notin> set (serializeRecord env record (relSchema st))"
  shows "\<exists>st'. updateRecord env st record = Some (RC_OK, st') \<and>
           cstr (pageFile (rmPool st') ! nat (page (rec_id record))) = serializeRecord env record (relSchema st)"
proof -
  let ?p = "page (rec_id record)"
  obtain pool' rb where rw: "rewritePage (rmPool st) ?p (\<lambda>_. serializeRecord env record (relSchema st)) = Some pool'"
    and pf: "pageFile pool' = (pageFile (rmPool st))[nat ?p := sprintfPage (serializeRecord env record (relSchema st))
                                                              (data (frames (rmPool st) ! i))]"
    using rewritePage_resident [OF wf i less_imp_le [OF rng(1)] inf] by blast
  have "updateRecord env st record = Some (RC_OK, st\<lparr>rmPool := pool'\<rparr>)"
    using rng caller rw by (simp add: updateRecord_def)
  moreover have "cstr (pageFile pool' ! nat ?p) = serializeRecord env record (relSchema st)"
    using inf nz by (simp add: pf cstr_sprintfPage)
  ultimately show ?thesis by auto
qed

lemma update_deleted_allowed_witness:
  "\<exists>st'. updateRecord demoEnv (demoRM 1 (lit ''DELETED_RECORD'' @ demoRecPage))
            \<lparr>rec_id = \<lparr>page = 1, slot = 0\<rparr>, rec_data = \<lambda>_. 0\<rparr> = Some (RC_OK, st') \<and>
     cstr (pageFile (rmPool st') ! 1) = lit ''[1-0] (a:7,b:zz,c:0)''"
proof -
  have "\<exists>st'. updateRecord demoEnv (demoRM 1 (lit ''DELETED_RECORD'' @ demoRecPage))
            \<lparr>rec_id = \<lparr>page = 1, slot = 0\<rparr>, rec_data = \<lambda>_. 0\<rparr> = Some (RC_OK, st') \<and>
     cstr (pageFile (rmPool st') ! nat (page (rec_id \<lparr>rec_id = \<lparr>page = 1, slot = 0\<rparr>, rec_data = \<lambda>_. 0\<rparr>))) =
       serializeRecord demoEnv \<lparr>rec_id = \<lparr>page = 1, slot = 0\<rparr>, rec_data = \<lambda>_. 0\<rparr>
         (relSchema (demoRM 1 (lit ''DELETED_RECORD'' @ demoRecPage)))"
    by (rule update_deleted_allowed [OF wf_demoRM, of 0])
       (simp_all add: upt_rec demoRM_def demoRMPool_def demoRecPage_def cstr_def bytesAt_def demoEnv_def)
  then show ?thesis by (simp add: demoEnv_def)
qed

text \<open>Closed forms of the record loops.\<close>

lemma insertScan_closed: "insertScan tp pg = (if 0 < pg \<and> pg < tp then tp else pg)"
proof (induction tp pg rule: insertScan.induct)
  case (1 tp pg)
  then show ?case by (subst insertScan.simps) auto
qed

lemma insertRecord_Some:
  assumes "insertRecord env st r = Some (rc, st', r')"
  shows "rc = RC_OK \<and> rec_id r' = \<lparr>page = max 1 (totalPages st), slot = 0\<rparr> \<and>
         totalPages st' = totalPages st + 1 \<and> freePages st' = max 1 (totalPages st) + 1 \<and>
         relSchema st' = relSchema st \<and> heap st' = heap st \<and>
         rewritePage (rmPool st) (max 1 (totalPages st)) (\<lambda>_. serializeRecord env r' (relSchema st)) = Some (rmPool st')"
  using assms by (auto simp: insertRecord_def insertScan_closed max_def bind_eq_Some_conv Let_def)

text \<open>C24: insertRecord always writes to the page its search stops at, page
  \<open>max 1 totalPages\<close>, slot 0: when that page is resident in frame \<open>i\<close>
  and its block exists, insertRecord returns \<open>RC_OK\<close> with the record id
  \<open>(max 1 totalPages, 0)\<close>, the block then holds the serialized record in
  place of what the page held, every other block is unchanged, totalPages
  grows by one and freePages is the page after it.\<close>

theorem insertRecord_writes:
  assumes wf: "wf_pool (rmPool st)" and i: "i < nframes (rmPool st)"
      "pageNum (frames (rmPool st) ! i) = max 1 (totalPages st)"
      and inf: "nat (max 1 (totalPages st)) < length (pageFile (rmPool st))"
      and nz: "0 \<notin> set (serializeRecord env (r\<lparr>rec_id := \<lparr>page = max 1 (totalPages st), slot = 0\<rparr>\<rparr>) (relSchema st))"
  shows "\<exists>st' r'. insertRecord env st r = Some (RC_OK, st', r') \<and>
           rec_id r' = \<lparr>page = max 1 (totalPages st), slot = 0\<rparr> \<and> wf_pool (rmPool st') \<and>
           cstr (pageFile (rmPool st') ! nat (max 1 (totalPages st))) = serializeRecord env r' (relSchema st) \<and>
           (\<forall>q. q \<noteq> nat (max 1 (totalPages st)) \<longrightarrow> pageFile (rmPool st') ! q = pageFile (rmPool st) ! q) \<and>
           totalPages st' = totalPages st + 1 \<and> freePages st' = max 1 (totalPages st) + 1"
proof -
  define p where "p = max 1 (totalPages st)"
  define r' where "r' = r\<lparr>rec_id := \<lparr>page = p, slot = 0\<rparr>\<rparr>"
  define S where "S = serializeRecord env r' (relSchema st)"
  have i2: "pageNum (frames (rmPool st) ! i) = p" "0 \<le> p" "nat p < length (pageFile (rmPool st))"
    using i(2) inf by (simp_all add: p_def)
  obtain pool' where rw: "rewritePage (rmPool st) p (\<lambda>_. S) = Some pool'" and wf': "wf_pool pool'"
    and pf: "pageFile pool' = (pageFile (rmPool st))[nat p := sprintfPage S (data (frames (rmPool st) ! i))]"
    using rewritePage_resident [OF wf i(1) i2, of "\<lambda>_. S"] by blast
  have sc: "insertScan (totalPages st) 1 = p" by (simp add: insertScan_closed p_def max_def)
  have ins: "insertRecord env st r =
      Some (RC_OK, st\<lparr>rmPool := pool', freePages := p + 1, totalPages := totalPages st + 1\<rparr>, r')"
    using rw by (simp add: insertRecord_def sc Let_def r'_def S_def)
  have nzS: "0 \<notin> set S" using nz by (simp add: S_def r'_def p_def)
  have c: "cstr (pageFile pool' ! nat p) = S"
    using pf i2(3) cstr_sprintfPage [OF nzS] by simp
  have rid: "rec_id r' = \<lparr>page = p, slot = 0\<rparr>" by (simp add: r'_def)
  have oth: "\<forall>q. q \<noteq> nat p \<longrightarrow> pageFile pool' ! q = pageFile (rmPool st) ! q" using pf by simp
  show ?thesis
    unfolding p_def [symmetric]
    by (rule exI [of _ "st\<lparr>rmPool := pool', freePages := p + 1, totalPages := totalPages st + 1\<rparr>"], rule exI [of _ r'])
       (simp add: ins wf' rid oth c S_def)
qed

lemma insertRecord_writes_witness:
  "\<exists>st' r'. insertRecord demoEnv (demoRM 1 demoRecPage) (freshRecord demoEnv) = Some (RC_OK, st', r') \<and>
     rec_id r' = \<lparr>page = 1, slot = 0\<rparr> \<and> wf_pool (rmPool st') \<and>
     cstr (pageFile (rmPool st') ! 1) = lit ''[1-0] (a:7,b:zz,c:0)'' \<and>
     pageFile (rmPool st') ! 0 = [0] \<and> totalPages st' = 2 \<and> freePages st' = 2"
proof -
  have tp: "max 1 (totalPages (demoRM 1 demoRecPage)) = 1" by (simp add: demoRM_def)
  have p1: "0 < nframes (rmPool (demoRM 1 demoRecPage))"
    and p2: "pageNum (frames (rmPool (demoRM 1 demoRecPage)) ! 0) = max 1 (totalPages (demoRM 1 demoRecPage))"
    and p3: "nat (max 1 (totalPages (demoRM 1 demoRecPage))) < length (pageFile (rmPool (demoRM 1 demoRecPage)))"
    by (simp_all add: tp, simp_all add: demoRM_def demoRMPool_def)
  have p4: "0 \<notin> set (serializeRecord demoEnv ((freshRecord demoEnv)\<lparr>rec_id := \<lparr>page = max 1 (totalPages (demoRM 1 demoRecPage)), slot = 0\<rparr>\<rparr>)
              (relSchema (demoRM 1 demoRecPage)))"
    by (simp add: demoEnv_def)
  obtain st' r' where h: "insertRecord demoEnv (demoRM 1 demoRecPage) (freshRecord demoEnv) = Some (RC_OK, st', r')"
      "rec_id r' = \<lparr>page = 1, slot = 0\<rparr>" "wf_pool (rmPool st')"
      "cstr (pageFile (rmPool st') ! 1) = serializeRecord demoEnv r' (relSchema (demoRM 1 demoRecPage))"
      "\<forall>q. q \<noteq> 1 \<longrightarrow> pageFile (rmPool st') ! q = pageFile (rmPool (demoRM 1 demoRecPage)) ! q"
      "totalPages st' = totalPages (demoRM 1 demoRecPage) + 1" "freePages st' = 2"
    using insertRecord_writes [OF wf_demoRM p1 p2 p3 p4] unfolding tp by auto
  have "pageFile (rmPool st') ! 0 = [0]" using h(5) [rule_format, of 0] by (simp add: demoRM_def demoRMPool_def)
  moreover have "cstr (pageFile (rmPool st') ! 1) = lit ''[1-0] (a:7,b:zz,c:0)''"
    using h(4) by (simp add: demoEnv_def)
  moreover have "totalPages st' = 2" using h(6) by (simp add: demoRM_def)
  ultimately show ?thesis using h(1-3,7) by blast
qed


lemma countLoop_Some:
  "countLoop env st rid r c = Some (n, st') \<Longrightarrow> 0 < page rid \<Longrightarrow>
     n = c + max 0 (totalPages st - page rid)"
proof (induction env st rid r c rule: countLoop.induct)
  case (1 env st rid r c)
  show ?case
  proof (cases "0 < page rid \<and> page rid < totalPages st")
    case True
    then obtain rc st1 r1 where g: "getRecord env st rid r = Some (rc, st1, r1)"
      using "1.prems"(1) by (cases "getRecord env st rid r") (auto simp: countLoop.simps [of env st rid r c])
    have ok: "rc = RC_OK" "totalPages st1 = totalPages st"
      using g True by (auto simp: getRecord_def bind_eq_Some_conv split: prod.splits)
    then have "countLoop env st1 \<lparr>page = page rid + 1, slot = 0\<rparr> r1 (c + 1) = Some (n, st')"
      using "1.prems"(1) True g by (simp add: countLoop.simps [of env st rid r c])
    then have "n = c + 1 + max 0 (totalPages st1 - (page rid + 1))"
      using "1.IH"(1) [OF True g refl refl ok(1)] "1.prems"(2) by simp
    then show ?thesis using ok(2) True by simp
  next
    case False
    then show ?thesis using "1.prems" by (simp add: countLoop.simps [of env st rid r c])
  qed
qed

lemma pages_same:
  assumes "map pageNum (frames pool') = map pageNum (frames (rmPool st))"
      and "map data (frames pool') = map data (frames (rmPool st))"
  shows "pages_resident (st\<lparr>rmPool := pool', heap := h\<rparr>) = pages_resident st"
        "pages_parse env (st\<lparr>rmPool := pool', heap := h\<rparr>) = pages_parse env st"
proof -
  have l: "nframes pool' = nframes (rmPool st)" using map_eq_imp_length_eq [OF assms(1)] by simp
  have "\<forall>k < nframes (rmPool st). pageNum (frames pool' ! k) = pageNum (frames (rmPool st) ! k) \<and>
                                  data (frames pool' ! k) = data (frames (rmPool st) ! k)"
    using map_eq_nth [OF assms(1)] map_eq_nth [OF assms(2)] by simp
  then show "pages_resident (st\<lparr>rmPool := pool', heap := h\<rparr>) = pages_resident st"
            "pages_parse env (st\<lparr>rmPool := pool', heap := h\<rparr>) = pages_parse env st"
    using l by (simp_all add: pages_resident_def pages_parse_def cong: conj_cong)
qed

lemma countLoop_returns:
  "wf_pool (rmPool st) \<Longrightarrow> 0 < page rid \<Longrightarrow> pages_resident st \<Longrightarrow> pages_parse env st \<Longrightarrow>
     \<exists>st'. countLoop env st rid r c = Some (c + max 0 (totalPages st - page rid), st')"
proof (induction env st rid r c rule: countLoop.induct)
  case (1 env st rid r c)
  show ?case
  proof (cases "0 < page rid \<and> page rid < totalPages st")
    case True
    then obtain i where i: "i < nframes (rmPool st)" "pageNum (frames (rmPool st) ! i) = page rid"
      using "1.prems"(3) by (auto simp: pages_resident_def)
    obtain rr heap' where d: "deserializeRecord env (cstr (data (frames (rmPool st) ! i))) (relSchema st) (heap st) = Some (rr, heap')"
      using "1.prems"(4) i(1) by (fastforce simp: pages_parse_def)
    obtain pool' where wf': "wf_pool pool'" and sh: "map pageNum (frames pool') = map pageNum (frames (rmPool st))"
        "map data (frames pool') = map data (frames (rmPool st))"
      and g0: "getRecord env st rid r = map_option (\<lambda>(rr, heap'). (RC_OK, st\<lparr>rmPool := pool', heap := heap'\<rparr>,
                 r\<lparr>rec_id := rid, rec_data := rec_data rr\<rparr>))
             (deserializeRecord env (cstr (data (frames (rmPool st) ! i))) (relSchema st) (heap st))"
      using getRecord_resident [OF "1.prems"(1) i, of env r] True by auto
    define st1 where "st1 = st\<lparr>rmPool := pool', heap := heap'\<rparr>"
    define r1 where "r1 = r\<lparr>rec_id := rid, rec_data := rec_data rr\<rparr>"
    have g: "getRecord env st rid r = Some (RC_OK, st1, r1)" using g0 d by (simp add: st1_def r1_def)
    have "\<exists>st'. countLoop env st1 \<lparr>page = page rid + 1, slot = 0\<rparr> r1 (c + 1) =
            Some (c + 1 + max 0 (totalPages st1 - (page rid + 1)), st')"
      using "1.IH"(1) [OF True g refl refl refl] wf' True pages_same [OF sh] "1.prems"(3,4)
      by (simp add: st1_def)
    then show ?thesis using True g by (simp add: countLoop.simps [of env st rid r c] st1_def)
  next
    case False
    then show ?thesis using "1.prems"(2) by (simp add: countLoop.simps [of env st rid r c])
  qed
qed

text \<open>C33: getNumTuples returns, with the number of pages from 1 to
  totalPages - 1 (0 when totalPages is at most 1), on every table whose pool
  is well formed, holds every page of that range, and whose page texts parse:
  the counting loop ends, and tombstoned records are counted.\<close>

theorem getNumTuples_returns:
  assumes "wf_pool (rmPool st)" "pages_resident st" "pages_parse env st"
  shows "\<exists>st'. getNumTuples env st = Some (max 0 (totalPages st - 1), st')"
  using countLoop_returns [OF assms(1) _ assms(2,3), of "\<lparr>page = 1, slot = 0\<rparr>" "freshRecord env" 0]
  by (simp add: getNumTuples_def)

lemma demoRM_pages: "pages_resident (demoRM 2 demoRecPage)" "pages_parse demoEnv (demoRM 2 demoRecPage)"
proof -
  show "pages_resident (demoRM 2 demoRecPage)"
    by (auto simp: pages_resident_def demoRM_def demoRMPool_def)
  show "pages_parse demoEnv (demoRM 2 demoRecPage)"
    by (simp add: pages_parse_def rm_parse_eval deserializeAttrs.simps demoRM_def demoRMPool_def demoRecPage_def
        demoSchema_def createSchema_def demoEnv_def cstr_def setAttr_def attrOffset_def offsetLoop.simps
        sizeofInt_def sizeofBool_def sizeofFloat_def)
qed

lemma getNumTuples_returns_witness: "\<exists>st'. getNumTuples demoEnv (demoRM 2 demoRecPage) = Some (1, st')"
  using getNumTuples_returns [OF wf_demoRM demoRM_pages] by (simp add: demoRM_def)

section \<open>Scans over a table\<close>

text \<open>A record read inside the table's range: \<open>getRecord\<close> returns \<open>RC_OK\<close>
  with the id asked for, and the conditions of the table hold after it.\<close>

lemma getRecord_parsed:
  assumes "wf_pool (rmPool st)" "pages_resident st" "pages_parse env st"
      and "0 < page rid" "page rid < totalPages st"
  shows "\<exists>st1 r1. getRecord env st rid r = Some (RC_OK, st1, r1) \<and> rec_id r1 = rid \<and>
           wf_pool (rmPool st1) \<and> pages_resident st1 \<and> pages_parse env st1 \<and>
           totalPages st1 = totalPages st \<and> relSchema st1 = relSchema st"
proof -
  obtain i where i: "i < nframes (rmPool st)" "pageNum (frames (rmPool st) ! i) = page rid"
    using assms(2,4,5) by (auto simp: pages_resident_def)
  obtain rr heap' where d: "deserializeRecord env (cstr (data (frames (rmPool st) ! i))) (relSchema st) (heap st) = Some (rr, heap')"
    using assms(3) i(1) by (fastforce simp: pages_parse_def)
  obtain pool' where wf': "wf_pool pool'" and sh: "map pageNum (frames pool') = map pageNum (frames (rmPool st))"
      "map data (frames pool') = map data (frames (rmPool st))"
    and g: "getRecord env st rid r = map_option (\<lambda>(rr, heap'). (RC_OK, st\<lparr>rmPool := pool', heap := heap'\<rparr>,
               r\<lparr>rec_id := rid, rec_data := rec_data rr\<rparr>))
           (deserializeRecord env (cstr (data (frames (rmPool st) ! i))) (relSchema st) (heap st))"
    using getRecord_resident [OF assms(1) i, of env r] assms(4,5) by auto
  show ?thesis
    using g d wf' pages_same(1) [OF sh, where h = heap'] pages_same(2) [OF sh, where h = heap' and env = env] assms(2,3)
    by simp
qed

lemma scanClient_from:
  "wf_pool (rmPool st) \<Longrightarrow> pages_resident st \<Longrightarrow> pages_parse env st \<Longrightarrow>
   condn sc = None \<Longrightarrow> currentSlot sc = 0 \<Longrightarrow> 0 < currentPage sc \<Longrightarrow> n = nat (totalPages st - currentPage sc) \<Longrightarrow>
   \<exists>st' sc'. scanClient (Suc n) env st sc out =
       Some (map (\<lambda>p. \<lparr>page = p, slot = 0\<rparr>) [currentPage sc..totalPages st - 1], RC_RM_NO_MORE_TUPLES, st', sc') \<and>
     currentPage sc' = 1"
proof (induction n arbitrary: st sc out)
  case 0
  then have "\<not> currentPage sc < totalPages st" by simp
  then show ?case using "0.prems"(4) by (simp add: next_rm_def Let_def)
next
  case (Suc n)
  let ?cp = "currentPage sc"
  have rng: "0 < ?cp" "?cp < totalPages st" using Suc.prems(6,7) by simp_all
  obtain st1 r1 where g: "getRecord env st \<lparr>page = ?cp, slot = 0\<rparr> (currentRecord sc) = Some (RC_OK, st1, r1)"
    and id: "rec_id r1 = \<lparr>page = ?cp, slot = 0\<rparr>"
    and inv: "wf_pool (rmPool st1)" "pages_resident st1" "pages_parse env st1" "totalPages st1 = totalPages st"
    using getRecord_parsed [OF Suc.prems(1-3), of "\<lparr>page = ?cp, slot = 0\<rparr>" "currentRecord sc"] rng by auto
  define sc1 where "sc1 = sc\<lparr>currentRecord := r1, currentPage := ?cp + 1\<rparr>"
  define out1 where "out1 = out\<lparr>rec_data := rec_data r1, rec_id := rec_id r1\<rparr>"
  have nx: "next_rm env st sc out = Some (RC_OK, st1, sc1, out1)"
    using Suc.prems(4,5) rng g by (simp add: next_rm_def sc1_def out1_def)
  have "\<exists>st' sc'. scanClient (Suc n) env st1 sc1 out1 =
       Some (map (\<lambda>p. \<lparr>page = p, slot = 0\<rparr>) [currentPage sc1..totalPages st1 - 1], RC_RM_NO_MORE_TUPLES, st', sc') \<and>
     currentPage sc' = 1"
    by (rule Suc.IH [OF inv(1-3)]) (use Suc.prems(4-7) inv(4) in \<open>simp_all add: sc1_def\<close>)
  then obtain st' sc' where rest: "scanClient (Suc n) env st1 sc1 out1 =
      Some (map (\<lambda>p. \<lparr>page = p, slot = 0\<rparr>) [?cp + 1..totalPages st - 1], RC_RM_NO_MORE_TUPLES, st', sc')"
    and p1: "currentPage sc' = 1"
    using inv(4) by (auto simp: sc1_def)
  have "[?cp..totalPages st - 1] = ?cp # [?cp + 1..totalPages st - 1]" using rng by (simp add: upto_rec1)
  moreover have "rec_id out1 = \<lparr>page = ?cp, slot = 0\<rparr>" using id by (simp add: out1_def)
  ultimately have "scanClient (Suc (Suc n)) env st sc out =
      Some (map (\<lambda>p. \<lparr>page = p, slot = 0\<rparr>) [?cp..totalPages st - 1], RC_RM_NO_MORE_TUPLES, st', sc')"
    using \<open>rec_id out1 = \<lparr>page = ?cp, slot = 0\<rparr>\<close>
    by (subst scanClient.simps(2)) (simp add: nx rest del: scanClient.simps)
  then show ?case using p1 by blast
qed

text \<open>C26: a scan without a condition, opened by startScan on a table whose
  pool is well formed, holds the pages from 1 to totalPages - 1 and whose page
  texts parse, returns with totalPages calls of next the records of pages 1,
  2, ..., totalPages - 1 in that order (slot 0), then RC_RM_NO_MORE_TUPLES,
  with the scan's page reset to 1.\<close>

theorem scan_visits_pages:
  assumes "wf_pool (rmPool st)" "pages_resident st" "pages_parse env st"
  shows "\<exists>st' sc'. scanClient (Suc (nat (totalPages st - 1))) env st (snd (startScan env None)) out =
           Some (map (\<lambda>p. \<lparr>page = p, slot = 0\<rparr>) [1..totalPages st - 1], RC_RM_NO_MORE_TUPLES, st', sc') \<and>
         currentPage sc' = 1"
  using scanClient_from [OF assms, of "snd (startScan env None)" "nat (totalPages st - 1)" out]
  by (simp add: startScan_def)

lemma scan_visits_pages_witness:
  "\<exists>st' sc'. scanClient (Suc (nat (totalPages (demoRM 2 demoRecPage) - 1))) demoEnv (demoRM 2 demoRecPage)
       (snd (startScan demoEnv None)) (freshRecord demoEnv) =
     Some ([\<lparr>page = 1, slot = 0\<rparr>], RC_RM_NO_MORE_TUPLES, st', sc') \<and> currentPage sc' = 1"
  using scan_visits_pages [OF wf_demoRM demoRM_pages, of "freshRecord demoEnv"]
  by (simp add: demoRM_def upto.simps)

text \<open>C27: next under a condition that every record satisfies returns what
  next without a condition returns (the code's two loops agree), up to the
  condition stored in the scan handle.\<close>

theorem next_condition_true_equiv:
  assumes "\<forall>r s. dt (cond r s) = DT_BOOL \<and> boolV (cond r s)"
  shows "map_option (\<lambda>(rc, st', sc', r). (rc, st', sc'\<lparr>condn := None\<rparr>, r)) (next_rm env st (sc\<lparr>condn := Some cond\<rparr>) out) =
         next_rm env st (sc\<lparr>condn := None\<rparr>) out"
  using assms
  by (auto simp: next_rm_def scanLoop.simps [of env cond st] Let_def split: option.split)

lemma next_condition_true_equiv_witness:
  "map_option (\<lambda>(rc, st', sc', r). (rc, st', sc'\<lparr>condn := None\<rparr>, r)) (next_rm demoEnv (demoRM 2 demoRecPage)
     ((snd (startScan demoEnv None))\<lparr>condn := Some (\<lambda>_ _. demoStr\<lparr>dt := DT_BOOL, boolV := True\<rparr>)\<rparr>) (freshRecord demoEnv)) =
   next_rm demoEnv (demoRM 2 demoRecPage) ((snd (startScan demoEnv None))\<lparr>condn := None\<rparr>) (freshRecord demoEnv)"
  using next_condition_true_equiv [of "\<lambda>_ _. demoStr\<lparr>dt := DT_BOOL, boolV := True\<rparr>"] by simp

section \<open>Creating and opening a table\<close>

text \<open>Pinning page 0 in the pool \<^verbatim>\<open>openTable\<close> creates loads it into
  frame 0; the schema page holds the serialized schema and its NUL.\<close>

lemma pin_fresh_page0:
  "\<exists>pool. pinPage (initBufferPool [p] 6 RS_FIFO) noHandle 0 =
     Some (RC_OK, pool, noHandle\<lparr>ph_pageNum := 0, ph_data := Some 0\<rparr>) \<and> data (frames pool ! 0) = p \<and>
     pageFile pool = [p] \<and> pageNum (frames pool ! 0) = 0 \<and> fixCount (frames pool ! 0) = 1"
  by (simp add: bm_eval)

lemma takeWhile_nul_pad: "0 \<notin> set s \<Longrightarrow> takeWhile (\<lambda>b. b \<noteq> 0) (s @ replicate n 0) = (s :: byte list)"
  by (induction s) (auto simp: takeWhile_eq_Nil_iff)

lemma cstr_schemaPage:
  assumes "0 \<notin> set s" "length s < PAGE_SIZE"
  shows "cstr (schemaPage s) = s"
proof -
  have "schemaPage s = s @ replicate (PAGE_SIZE - length s) 0"
    using assms(2) by (simp add: schemaPage_def)
  then show ?thesis using assms(1) by (simp add: cstr_def takeWhile_nul_pad)
qed

text \<open>C30: createTable followed by openTable of the same name: the table is
  opened on the page file createTable wrote, whose block 0 is the serialized
  schema; its schema is what deserializeSchema makes of that text, page 0 is
  resident in frame 0 with one pin, and totalPages and freePages are what
  the header read gives for that file.\<close>

theorem createTable_openTable:
  assumes new: "name \<notin> dom fs" and s: "serializeSchema env schema = s" and nz: "0 \<notin> set s"
      and len: "length s < PAGE_SIZE"
  shows "\<exists>pool. wf_pool pool \<and> pageFile pool = [schemaPage s] \<and>
           pageNum (frames pool ! 0) = 0 \<and> fixCount (frames pool ! 0) = 1 \<and>
           openTable env (snd (createTable env fs name schema)) mem name =
             map_option (\<lambda>sch. \<lparr>relName = name, relSchema = sch, rmPool = pool,
                                 freePages = readHeader env [schemaPage s],
                                 totalPages = readHeader env [schemaPage s], heap = mem\<rparr>)
               (deserializeSchema env s)"
proof -
  have ct: "snd (createTable env fs name schema) = fs(name \<mapsto> [schemaPage s])"
    using new s by (simp add: createTable_def writeBlock_def createPageFile_def)
  obtain pool where pin: "pinPage (initBufferPool [schemaPage s] 6 RS_FIFO) noHandle 0 =
      Some (RC_OK, pool, noHandle\<lparr>ph_pageNum := 0, ph_data := Some 0\<rparr>)"
    and d: "data (frames pool ! 0) = schemaPage s" and f0: "pageFile pool = [schemaPage s]"
    and p0: "pageNum (frames pool ! 0) = 0" "fixCount (frames pool ! 0) = 1"
    using pin_fresh_page0 by blast
  have wf: "wf_pool pool"
    using wf_pinPage_strategy [OF wf_initBufferPool pin] by simp
  show ?thesis
    using wf pin d f0 p0 cstr_schemaPage [OF nz len]
    by (intro exI [of _ pool], cases "deserializeSchema env s") (simp_all add: openTable_def ct Let_def)
qed

lemma createTable_openTable_witness:
  "\<exists>pool. wf_pool pool \<and>
     openTable demoEnv (snd (createTable demoEnv Map.empty ''t'' demoSchema)) demoMem ''t'' =
       Some \<lparr>relName = ''t'', relSchema = demoSchema, rmPool = pool, freePages = 2, totalPages = 2, heap = demoMem\<rparr>"
proof -
  have s: "serializeSchema demoEnv demoSchema = demoSchemaText" by (simp add: demoEnv_def)
  have h: "readHeader demoEnv [schemaPage demoSchemaText] = 2"
    by (simp add: readHeader_def demoEnv_def cstr_def PAGE_SIZE_def strtol_def digitsValue_def isspace_def
        isdigit_def LONG_MIN_def LONG_MAX_def int_of_long_def)
  have nz: "0 \<notin> set demoSchemaText" and len: "length demoSchemaText < PAGE_SIZE"
    by (simp_all add: demoSchemaText_def PAGE_SIZE_def)
  obtain pool where wf: "wf_pool pool" and
    o: "openTable demoEnv (snd (createTable demoEnv Map.empty ''t'' demoSchema)) demoMem ''t'' =
          map_option (\<lambda>sch. \<lparr>relName = ''t'', relSchema = sch, rmPool = pool,
                              freePages = readHeader demoEnv [schemaPage demoSchemaText],
                              totalPages = readHeader demoEnv [schemaPage demoSchemaText], heap = demoMem\<rparr>)
            (deserializeSchema demoEnv demoSchemaText)"
    using createTable_openTable [of "''t''" Map.empty demoEnv demoSchema demoSchemaText demoMem, OF _ s nz len]
    by auto
  have "openTable demoEnv (snd (createTable demoEnv Map.empty ''t'' demoSchema)) demoMem ''t'' =
          Some \<lparr>relName = ''t'', relSchema = demoSchema, rmPool = pool, freePages = 2, totalPages = 2, heap = demoMem\<rparr>"
    unfolding o h deserializeSchema_demo by simp
  with wf show ?thesis by blast
qed

end
