(* ===== verification/Spec2Isabelle.thy ===== *)
theory Spec2Isabelle
  imports BTree_Mgr RM_Table
begin

text \<open>
  \<^bold>\<open>A model of the buffer manager (\<^verbatim>\<open>src/buffer_mgr.c\<close>), the index
  manager (\<^verbatim>\<open>src/btree_mgr.c\<close>) and the record manager
  (\<^verbatim>\<open>src/record_mgr.c\<close>, \<^verbatim>\<open>src/rm_deserializer.c\<close>).\<close>

  \<^emph>\<open>The program.\<close> The buffer manager keeps \<^verbatim>\<open>numPages\<close> page frames of a
  page file in a circular doubly linked list (\<^verbatim>\<open>struct PageFrame\<close>), with a
  management record (\<^verbatim>\<open>BM_BufferPool_Mgmt\<close>) holding the \<^verbatim>\<open>head\<close> and
  \<^verbatim>\<open>tail\<close> pointers, the number of occupied frames and the I/O counters.
  \<^verbatim>\<open>pinPage\<close> dispatches to \<^verbatim>\<open>pinPageFIFO\<close>, \<^verbatim>\<open>pinPageLRU\<close> or
  \<^verbatim>\<open>pinPageCLOCK\<close>; each searches the ring for the page, fills a free frame
  or picks a victim, writes a dirty victim back and reads the block through the
  storage manager (\<^verbatim>\<open>storage_mgr.c\<close>, not among the sources).
  \<^verbatim>\<open>markDirty\<close>, \<^verbatim>\<open>unpinPage\<close> and \<^verbatim>\<open>forcePage\<close> search the ring for
  the handle's page; \<^verbatim>\<open>forceFlushPool\<close> and \<^verbatim>\<open>shutdownBufferPool\<close> write
  back the dirty unpinned frames; the statistics functions read the ring.
  The index manager and the record manager are clients of the buffer pool:
  each opens a pool on its own page file and pins, writes, marks dirty,
  unpins and forces pages through it. The record manager keeps one record
  per page as text (\<^verbatim>\<open>[page-slot] (a:v,...)\<close>, written by the serializer
  and parsed back by \<^verbatim>\<open>rm_deserializer.c\<close>), and page 0 holds the schema
  text; a record's data is a byte buffer laid out attribute after attribute.

  \<^emph>\<open>The theories.\<close>
  \<^item> \<^theory_text>\<open>BM_Prelude\<close>: bytes and pages, the return codes \<^verbatim>\<open>RC\<close>, the ring
    arithmetic \<open>nxt\<close>/\<open>prv\<close> (the \<^verbatim>\<open>next\<close>/\<^verbatim>\<open>prev\<close> pointers: frame
    \<open>i\<close> of the ring is the \<open>i\<close>-th frame \<^verbatim>\<open>createPageFrame\<close> allocated) and
    \<open>ring_walk\<close>, the frames a \<^verbatim>\<open>do ... while (frame != stop)\<close> loop visits.
  \<^item> \<^theory_text>\<open>Storage_Mgr\<close>: the page file as a list of blocks with
    \<open>ensureCapacity\<close>, \<open>readBlock\<close>, \<open>writeBlock\<close>, modelled from the
    specification because \<^verbatim>\<open>storage_mgr.c\<close> is not part of the sources;
    failures are \<open>Inl\<close> of a return code.
  \<^item> \<^theory_text>\<open>Buffer_Frames\<close>: the records \<open>PageFrame\<close>, \<open>BM_BufferPool\<close>
    (the pool and its management data in one state), \<open>BM_PageHandle\<close> (whose
    \<^verbatim>\<open>data\<close> pointer is the index of the frame it points into);
    \<open>createPageFrame\<close>, \<open>initBufferPool\<close>; the generic ring loop
    \<open>ringScan\<close> with its closed form \<open>ringScan_eq\<close>; \<open>findPage\<close> (the hit
    search), \<open>markDirty\<close>, \<open>unpinPage\<close>, \<open>forcePage\<close>, \<open>flushFrames\<close> /
    \<open>forceFlushPool\<close>, \<open>shutdownBufferPool\<close> and the statistics.
  \<^item> \<^theory_text>\<open>Buffer_Pin\<close>: \<open>pinPageFIFO\<close>, \<open>pinPageLRU\<close>,
    \<open>pinPageCLOCK\<close> with their shared pieces \<open>fillFrame\<close>,
    \<open>writeBackVictim\<close>, \<open>loadPage\<close>, \<open>pinHit\<close>, the CLOCK sweep
    \<open>clockSweep\<close>, and \<open>pinPage\<close>.
  \<^item> \<^theory_text>\<open>Buffer_Pool\<close>: the invariant \<open>wf_pool\<close> (a non-empty ring of
    \<^verbatim>\<open>numPages\<close> frames, \<^verbatim>\<open>head\<close> and \<^verbatim>\<open>tail\<close> in range, the occupancy
    count between 0 and \<^verbatim>\<open>numPages\<close>, and no page in two frames), that every
    loop returns on a well-formed pool and that every operation keeps it.
  \<^item> \<^theory_text>\<open>Buffer_Run\<close>: a consumer as a list of calls \<open>bm_op\<close> on one
    handle (\<open>bm_step\<close>, \<open>bm_run\<close>), the I/O bound of a pin and the run lemma
    \<open>bm_run_ok\<close>.
  \<^item> \<^theory_text>\<open>Buffer_Api\<close>: the operations as the specification describes
    them: statistics in ring order, \<^verbatim>\<open>markDirty\<close>/\<^verbatim>\<open>unpinPage\<close> as maps over
    the frames, \<^verbatim>\<open>forcePage\<close> as a write of the one dirty frame holding the
    page, \<^verbatim>\<open>forceFlushPool\<close> as the cleaning of the unpinned dirty frames
    and the write of exactly their blocks (\<open>flushFrames_blocks\<close>).
  \<^item> \<^theory_text>\<open>BTree_Mgr\<close>: the index manager of \<^verbatim>\<open>btree_mgr.c\<close>, which
    keeps its keys in the global array \<^verbatim>\<open>AllocBTree\<close> (\<open>BTreeMgr\<close>, a
    list of \<open>KeyEntry\<close>) and owns a FIFO buffer pool on the index file
    (\<open>TreeInfo\<close>). \<open>findKey\<close>, \<open>insertKey\<close>, \<open>deleteKey\<close> (with its
    shift loop \<open>shiftDown\<close>), \<open>openTreeScan\<close> (the selection sort
    \<open>selSort\<close>/\<open>minIdx\<close>), \<open>nextEntry\<close>, \<open>createBtree\<close>,
    \<open>openBtree\<close>, \<open>deleteBtree\<close>, \<open>getNumNodes\<close>, \<open>getNumEntries\<close>,
    \<open>getKeyType\<close>, the functions without effect (\<open>initIndexManager\<close>,
    \<open>shutdownIndexManager\<close>, \<open>closeBtree\<close>, \<open>closeTreeScan\<close>), and
    \<open>printTree\<close>, whose loop \<open>printStep\<close> over the locals \<open>PrintState\<close>
    yields the text written to standard output; \<open>printTreeRef\<close> is its
    closed form.
    The pins, dirty marks and unpins these functions make on the tree's pool
    are the buffer pool's own operations (\<open>tree_pin\<close>, \<open>tree_markDirty\<close>,
    \<open>tree_unpin\<close>), so the index composes with the pool model; the lemmas
    \<open>tree_pin_wf\<close> etc. discharge the pool's side from \<open>wf_pool\<close>. The
    selection sort is shown to compute \<open>sort\<close> on the keys (\<open>selSort_sort\<close>).
  \<^item> \<^theory_text>\<open>Tables\<close>: the types of \<^verbatim>\<open>tables.h\<close> (\<open>Value\<close>, \<open>RID\<close>,
    \<open>Schema\<close>, \<open>Record\<close>, modelled from the header, which is not under
    \<^verbatim>\<open>src/\<close>), a record's data as a byte buffer \<open>buf\<close> (\<open>nat \<Rightarrow> byte\<close>), and
    \<open>memcpyTo\<close>/\<open>bytesAt\<close>, \<^verbatim>\<open>memcpy\<close> into and out of a buffer; C strings
    are byte lists, \<open>lit\<close> the bytes of a string literal, and
    \<open>decimal\<close>/\<open>sprintfInt\<close> the text \<^verbatim>\<open>sprintf("%d")\<close> writes.
  \<^item> \<^theory_text>\<open>RM_Attr\<close>: the attribute functions of \<^verbatim>\<open>record_mgr.c\<close>:
    \<open>attrOffset\<close> (its loop \<open>offsetLoop\<close>), \<open>getRecordSize\<close>
    (\<open>sizeLoop\<close>), \<open>createSchema\<close>, \<open>getAttr\<close>, \<open>setAttr\<close>. What
    the code takes from memory it does not set (a fresh \<^verbatim>\<open>malloc\<close>, the
    float conversion of the C library, the serializer of
    \<^verbatim>\<open>rm_serializer.c\<close>, which is not among the sources) is a field of the
    parameter record \<open>RM_Env\<close>. The abstraction \<open>attrSlices\<close> views a
    record as the list of its attributes' byte slices.
  \<^item> \<^theory_text>\<open>RM_Deser\<close>: \<^verbatim>\<open>strtok\<close> with its saved pointer as explicit state,
    \<^verbatim>\<open>strtol\<close> (saturating) and \<open>deserializeRecord\<close> (the attribute loop
    \<open>deserializeAttrs\<close>) and \<open>deserializeSchema\<close> (the attribute loop
    \<open>schemaAttrs\<close>, the key loop \<open>keyTokens\<close>/\<open>schemaKeys\<close>, and the
    \<^verbatim>\<open>splitString\<close> phase \<open>stringAttr\<close>). A token the code dereferences
    when \<^verbatim>\<open>strtok\<close> returned \<^verbatim>\<open>NULL\<close> is a crash, \<open>None\<close>.
  \<^item> \<^theory_text>\<open>RM_Table\<close>: the table state \<open>RM_State\<close> (\<^verbatim>\<open>RM_TableData\<close>
    with its pool and the globals \<^verbatim>\<open>totalPages\<close>, \<^verbatim>\<open>freePages\<close>), the page
    write sequence \<open>rewritePage\<close> (pin, \<^verbatim>\<open>sprintf\<close> into the frame, mark
    dirty, unpin, force) on which \<open>insertRecord\<close>, \<open>deleteRecord\<close>,
    \<open>updateRecord\<close> are built, \<open>getRecord\<close>, \<open>getNumTuples\<close>
    (\<open>countLoop\<close>), \<open>startScan\<close>/\<open>next_rm\<close> (\<^verbatim>\<open>next\<close>, with its loop
    \<open>scanLoop\<close>) and a client \<open>scanClient\<close> calling it until it stops
    returning \<open>RC_OK\<close>, the functions without effect, and the table
    functions \<open>createTable\<close>, \<open>openTable\<close> (with its header read
    \<open>readHeader\<close>), \<open>closeTable\<close>,
    \<open>deleteTable\<close> over a file system (a map from names to page files).
  \<^item> This theory: the properties C1 to C22, each after a text naming it, and
    the concrete pools and trees the witnesses and scenarios run on. The
    record manager's properties C23 to C33 are in its three theories, each
    with its witness on a concrete table (\<open>demoRM\<close>, a one-frame FIFO pool
    holding one record page) or schema (\<open>demoSchema\<close>).

  \<^emph>\<open>Loops.\<close> Every \<^verbatim>\<open>do ... while\<close> over the ring and the CLOCK sweep are
  \<^theory_text>\<open>partial_function (option)\<close> definitions, \<open>None\<close> being a loop that does
  not end. The ring scans return because the pointer advances by one modulo
  the ring size and meets its stop frame within \<open>n\<close> steps (\<open>ringScan_eq\<close>);
  the sweep returns because each step clears one reference bit
  (\<open>clockSweep_result\<close>, by induction on the number of set bits). Both need
  only \<open>wf_pool\<close>, so every call and every run returns (C1, C11); no fuel
  bound is used. The scan client \<open>scanClient\<close> takes the number of calls as
  fuel; \<open>totalPages\<close> calls are enough (C26). The record manager's loops
  (\<open>offsetLoop\<close>, \<open>sizeLoop\<close>, \<open>insertScan\<close>, \<open>countLoop\<close>,
  \<open>scanLoop\<close>, \<open>keyTokens\<close>) are \<^theory_text>\<open>function\<close> definitions with a
  measure: the attribute index or page number against its bound, the length
  of the text left to \<^verbatim>\<open>strtok\<close>.

  \<^emph>\<open>Groups of results.\<close> C1 to C3: termination and invariant of every run
  (the pool stays well formed, a page is resident in one frame at most, the
  I/O counters never decrease) and the I/O bound of one pin. C4 to C9: the
  functional behaviour of a hit, \<^verbatim>\<open>markDirty\<close>, \<^verbatim>\<open>unpinPage\<close>,
  \<^verbatim>\<open>forcePage\<close>, the write round trip, and \<^verbatim>\<open>forceFlushPool\<close>, which
  writes every unpinned dirty frame to its block and leaves the other blocks
  alone. C10 to C12: pinning into a full FIFO pool whose frames are all
  pinned returns \<open>RC_OK\<close> and loads the block into a frame that keeps
  another page's label (the specification expects an error), the CLOCK
  sweep's termination, and \<^verbatim>\<open>shutdownBufferPool\<close> leaving the block of
  every pinned page as it was. The replacement tests of the specification,
  further departures (CLOCK and LRU evicting a pinned page, dirty flags that
  survive eviction, the FIFO search skipping \<^verbatim>\<open>head\<close>, negative fix
  counts, pinning \<^verbatim>\<open>NO_PAGE\<close>, a failed read reported as success) and the
  closed form of the hit search are lemmas of this theory, checked on
  concrete runs. C13 to C22: the index manager: an int key inserted is
  found, duplicates are refused, the invariant of an index of distinct int
  keys under insert and delete, the delete shift, a missing key deleted with
  \<open>RC_OK\<close>, the sorted scan as an equivalence with \<open>sort\<close>, the scan loop,
  the node size read from the wrong block, the byte round trip of the node
  size, and \<^verbatim>\<open>printTree\<close> equal to its closed form, which prints entry 0
  twice and drops the last entry of an odd count (C22); the scan cursor never
  reset and \<^verbatim>\<open>getNumNodes\<close> counting from an uninitialised variable are
  lemmas. C23 to C33: the record manager: a deleted record is still read
  (C23); \<^verbatim>\<open>insertRecord\<close> writes the record to page
  \<open>max 1 totalPages\<close>, slot 0, and changes no other block (C24); an update
  over a tombstone is allowed (C25); a scan returns the pages in order and
  ends (C26), and \<^verbatim>\<open>next\<close> under an always-true condition agrees with
  \<^verbatim>\<open>next\<close> without one (C27); \<open>setAttr\<close> refines the update of one
  attribute slice (C28) and the string round trip \<open>setAttr\<close>/\<open>getAttr\<close>
  (C29); \<open>createTable\<close> then \<open>openTable\<close> gives the schema parsed from
  block 0 and the page count of the file's header (C30); every attribute lies
  inside the record (C31; \<open>getRecordSize\<close> equal to the end offset of the
  last attribute is a lemma); a parsed schema has arrays of \<open>numAttr\<close>
  entries and types at most one attribute as a string (C32); and
  \<open>getNumTuples\<close> returns with the count of pages on a table whose pages
  are resident and parse (C33).

  \<^emph>\<open>Not modelled.\<close> \<^verbatim>\<open>forcePage\<close> and \<^verbatim>\<open>forceFlushPool\<close> return
  \<open>RC_FILE_NOT_FOUND\<close> when the page file does not open; the model's pool
  holds its page file from \<^verbatim>\<open>initBufferPool\<close> on, so that branch does
  not arise (the other operations ignore the result of
  \<^verbatim>\<open>openPageFile\<close>). C \<^verbatim>\<open>int\<close> overflow of the counters and page
  numbers is not modelled (they are \<open>int\<close>); \<^verbatim>\<open>malloc\<close> failure and
  \<^verbatim>\<open>free\<close> are not modelled; \<^verbatim>\<open>frameNum\<close> is never read. In the index
  manager the heap layout is not modelled: \<^verbatim>\<open>AllocBTree\<close> is a list of the
  live entries (the C array has room for one pointer only, a finding of the
  manifest); the members of the \<^verbatim>\<open>Value\<close> union are separate fields, so
  what a write to one member does to the bytes of another (an
  \<^verbatim>\<open>intV\<close> store over a \<^verbatim>\<open>stringV\<close> pointer, a \<^verbatim>\<open>bool\<close> read of
  an int) is not modelled, and no claim rests on it; \<^verbatim>\<open>floatV\<close> is a
  real, so float keys have no NaN and the claims about keys are stated for
  int keys; memory the code reads uninitialised is a parameter (\<open>fresh\<close>,
  \<open>phbuf\<close>, \<open>samePageEntry0\<close>), except the read of
  \<^verbatim>\<open>AllocBTree[0]\<close> by \<^verbatim>\<open>openTreeScan\<close> on an empty index, where
  the model takes the run without a crash; and the 500-byte buffers of
  \<^verbatim>\<open>printTree\<close> are unbounded lists (their overflow is a finding). In
  the record manager \<^verbatim>\<open>strtok\<close> writing its NUL bytes into the frame it
  parses is not modelled (\<open>getRecord\<close> and \<open>openTable\<close> parse a copy),
  nor are the heap overflows of the code (the 14-byte tombstone buffer
  without a NUL, the \<^verbatim>\<open>malloc(sizeof(char*))\<close> buffers): the model
  gives them room; the schema's \<^verbatim>\<open>STRING\<close> index is not checked by
  the code, and a write outside the arrays is a failure (\<open>None\<close>). The
  layout of a page file on disk belongs to the storage manager, which is
  not among the sources: the bytes \<^verbatim>\<open>openTable\<close> reads its header line
  from are the parameter \<open>fileBytes\<close> of \<open>RM_Env\<close> (\<open>readHeader\<close>),
  so no claim depends on a guessed layout. The condition of a scan is a
  function on the record (\<^verbatim>\<open>evalExpr\<close> of \<^verbatim>\<open>expr.c\<close>, not among the
  sources); \<^verbatim>\<open>initRecordManager\<close>, \<^verbatim>\<open>shutdownRecordManager\<close>,
  \<^verbatim>\<open>closeScan\<close>, \<^verbatim>\<open>createRecord\<close>, \<^verbatim>\<open>freeRecord\<close> and
  \<^verbatim>\<open>freeSchema\<close> only allocate or free memory, so their models return
  \<open>RC_OK\<close> (and a fresh record); file-system failures other than a missing
  file are not modelled.
\<close>


definition file6 :: "page list" where
  "file6 = [[0], [1], [2], [3], [4], [5]]"

definition demoPool :: BM_BufferPool where
  "demoPool = \<lparr>pageFile = file6, numPages = 2, strategy = RS_FIFO,
     frames = [\<lparr>pageNum = 1, dirtyFlag = True, fixCount = 1, refBit = False, data = [7]\<rparr>, newFrame],
     head = 1, tail = 0, occupiedCount = 1, numRead = 1, numWrite = 0\<rparr>"

definition demoTree :: TreeInfo where
  "demoTree = \<lparr>tbm = initBufferPool [emptyPage] 6 RS_FIFO, tph = noHandle, phLit = None,
                maxNumOfKeysPerNode = 0, nodeCounter = 0\<rparr>"

definition intKey :: "int \<Rightarrow> Value" where
  "intKey n = \<lparr>dt = DT_INT, intV = n, stringV = 0, floatV = 0, boolV = False\<rparr>"

definition freshEntry :: KeyEntry where
  "freshEntry = \<lparr>kvalue = \<lparr>dt = DT_BOOL, intV = 0, stringV = 7, floatV = 0, boolV = False\<rparr>,
                 rid = \<lparr>page = 0, slot = 0\<rparr>\<rparr>"

lemma wf_demoPool: "wf_pool demoPool"
  by (simp add: wf_pool_def demoPool_def distinct_pages_def newFrame_def NO_PAGE_def All_less_Suc numeral_2_eq_2)

lemma wf_demoTree: "wf_pool (tbm demoTree)"
  by (simp add: demoTree_def wf_initBufferPool)

text \<open>C1: from any well-formed pool every sequence of calls terminates (the
  \<^verbatim>\<open>do ... while\<close> loops and the CLOCK sweep end), keeps the pool well
  formed and never decreases the read and write counters.\<close>

theorem run_terminates:
  assumes "wf_pool bm"
  shows "\<exists>bm' h'. bm_run (bm, h) ops = Some (bm', h') \<and> wf_pool bm' \<and>
           numRead bm \<le> numRead bm' \<and> numWrite bm \<le> numWrite bm'"
  using bm_run_ok [OF assms] by blast

lemma run_terminates_witness:
  "\<exists>bm' h'. bm_run (demoPool, noHandle) [Pin 0, Unpin 1, Pin 3, Flush] = Some (bm', h') \<and> wf_pool bm' \<and>
     numRead demoPool \<le> numRead bm' \<and> numWrite demoPool \<le> numWrite bm'"
  by (rule run_terminates [OF wf_demoPool])

text \<open>C2: in every pool reachable from initialisation a page is held by at
  most one frame (the page numbers reported by \<^verbatim>\<open>getFrameContents\<close>, empty
  frames aside, are distinct), \<^verbatim>\<open>getFrameContents\<close> lists the frames in
  ring order, and the occupancy count stays between 0 and \<^verbatim>\<open>numPages\<close>.\<close>

theorem reachable_pages_distinct:
  assumes "0 < n"
  shows "\<exists>bm' h'. bm_run (initBufferPool file n s, h) ops = Some (bm', h') \<and>
           distinct (filter (\<lambda>q. q \<noteq> NO_PAGE) (getFrameContents bm')) \<and>
           getFrameContents bm' = map pageNum (frames bm') \<and>
           0 \<le> occupiedCount bm' \<and> occupiedCount bm' \<le> numPages bm'"
proof -
  obtain bm' h' where r: "bm_run (initBufferPool file n s, h) ops = Some (bm', h')" and wf: "wf_pool bm'"
    using bm_run_ok [OF wf_initBufferPool [OF assms]] by blast
  have "distinct (filter (\<lambda>q. q \<noteq> NO_PAGE) (map pageNum (frames bm')))"
    using wf by (intro distinct_pages_filter) (simp add: wf_pool_def)
  with r wf show ?thesis by (auto simp: getFrameContents_wf wf_pool_def)
qed

lemma reachable_pages_distinct_witness:
  "\<exists>bm' h'. bm_run (initBufferPool file6 2 RS_LRU, noHandle) [Pin 1, Pin 1, Pin 2] = Some (bm', h') \<and>
     distinct (filter (\<lambda>q. q \<noteq> NO_PAGE) (getFrameContents bm')) \<and>
     getFrameContents bm' = map pageNum (frames bm') \<and>
     0 \<le> occupiedCount bm' \<and> occupiedCount bm' \<le> numPages bm'"
  by (rule reachable_pages_distinct) simp

text \<open>C3: one \<^verbatim>\<open>pinPage\<close> reads at most one block and writes at most one
  block: \<^verbatim>\<open>numReadIO\<close> and \<^verbatim>\<open>numWriteIO\<close> each grow by 0 or 1, whatever the
  strategy and whatever branch (hit, fill, eviction, failure) is taken.\<close>

theorem pinPage_io:
  assumes "pinPage bm h p = Some (rc, bm', h')"
  shows "numRead bm \<le> numRead bm' \<and> numRead bm' \<le> numRead bm + 1 \<and>
         numWrite bm \<le> numWrite bm' \<and> numWrite bm' \<le> numWrite bm + 1"
  using io_pinPage [OF assms] by (simp add: io_step_def)

lemma pinPage_io_witness:
  "\<exists>rc bm' h'. pinPage demoPool noHandle 4 = Some (rc, bm', h') \<and>
     numRead demoPool \<le> numRead bm' \<and> numRead bm' \<le> numRead demoPool + 1 \<and>
     numWrite demoPool \<le> numWrite bm' \<and> numWrite bm' \<le> numWrite demoPool + 1"
proof -
  have "\<exists>rc bm' h'. pinPage demoPool noHandle 4 = Some (rc, bm', h')"
    by (simp add: bm_eval demoPool_def file6_def)
  then obtain rc bm' h' where r: "pinPage demoPool noHandle 4 = Some (rc, bm', h')" by blast
  show ?thesis using pinPage_io [OF r] r by blast
qed

text \<open>The FIFO test of the specification: three frames, pages 1, 2, 3
  pinned and unpinned, then page 4 pinned: page 1, the oldest, is replaced.\<close>

theorem fifo_scenario:
  "map_option (getFrameContents \<circ> fst) (bm_run (initBufferPool file6 3 RS_FIFO, noHandle)
     [Pin 1, Pin 2, Pin 3, Unpin 1, Unpin 2, Unpin 3, Pin 4]) = Some [4, 2, 3]"
  by (simp add: bm_eval file6_def)

text \<open>The LRU test of the specification: after pages 1, 2, 3 and a new
  pin and unpin of page 1, pinning page 4 replaces page 2, the least recently
  used.\<close>

theorem lru_scenario:
  "map_option (getFrameContents \<circ> fst) (bm_run (initBufferPool file6 3 RS_LRU, noHandle)
     [Pin 1, Pin 2, Pin 3, Unpin 1, Unpin 2, Unpin 3, Pin 1, Unpin 1, Pin 4]) = Some [1, 4, 3]"
  by (simp add: bm_eval file6_def)

text \<open>The CLOCK test of the specification: the sweep clears the
  reference bits of all three frames, comes back to frame 0 and replaces
  page 1 there; the new frame gets its reference bit and the hand moves to
  frame 1.\<close>

theorem clock_scenario:
  "map_option (\<lambda>(bm, h). (getFrameContents bm, map refBit (frames bm), head bm))
     (bm_run (initBufferPool file6 3 RS_CLOCK, noHandle)
       [Pin 1, Pin 2, Pin 3, Unpin 1, Unpin 2, Unpin 3, Pin 4]) = Some ([4, 2, 3], [True, False, False], 1)"
  by (simp add: bm_eval file6_def)


text \<open>C4: a hit does no I/O. When frame \<open>i\<close> of a well-formed pool holds page
  \<open>p\<close>, \<^verbatim>\<open>pinPage\<close> (any strategy) returns \<open>RC_OK\<close> with the handle on frame
  \<open>i\<close>, one more pin on that frame, the same frame contents and page file, and
  unchanged counters.\<close>

theorem pinPage_hit:
  assumes wf: "wf_pool bm" and i: "i < nframes bm" "pageNum (frames bm ! i) = p" "p \<noteq> NO_PAGE"
  shows "\<exists>bm'. pinPage bm h p = Some (RC_OK, bm', h\<lparr>ph_pageNum := p, ph_data := Some i\<rparr>) \<and>
           pageFile bm' = pageFile bm \<and> numRead bm' = numRead bm \<and> numWrite bm' = numWrite bm \<and>
           map pageNum (frames bm') = map pageNum (frames bm) \<and>
           fixCount (frames bm' ! i) = fixCount (frames bm ! i) + 1"
  using findPage_unique [OF assms] i(1,2)
  by (cases "strategy bm") (simp_all add: pinPage_def pinPageFIFO_def pinPageLRU_def pinPageCLOCK_def pinHit_def Let_def)

lemma pinPage_hit_witness:
  "\<exists>bm'. pinPage demoPool noHandle 1 = Some (RC_OK, bm', noHandle\<lparr>ph_pageNum := 1, ph_data := Some 0\<rparr>) \<and>
     pageFile bm' = pageFile demoPool \<and> numRead bm' = numRead demoPool \<and> numWrite bm' = numWrite demoPool \<and>
     map pageNum (frames bm') = map pageNum (frames demoPool) \<and>
     fixCount (frames bm' ! 0) = fixCount (frames demoPool ! 0) + 1"
  by (rule pinPage_hit [OF wf_demoPool]) (simp_all add: demoPool_def NO_PAGE_def)

text \<open>C5: \<^verbatim>\<open>markDirty\<close> on a well-formed pool returns \<open>RC_OK\<close> and sets the
  dirty flag of exactly the frames holding the handle's page (none if the page
  is not resident), changing nothing else.\<close>

theorem markDirty_spec:
  assumes "wf_pool bm" "ph_pageNum h \<noteq> NO_PAGE"
  shows "markDirty bm h = Some (RC_OK, bm\<lparr>frames := map (\<lambda>f. if pageNum f = ph_pageNum h
                                   then f\<lparr>dirtyFlag := True\<rparr> else f) (frames bm)\<rparr>)"
  using markDirty_map [OF assms] .

lemma markDirty_spec_witness:
  "markDirty demoPool \<lparr>ph_pageNum = 3, ph_data = None\<rparr> =
     Some (RC_OK, demoPool\<lparr>frames := map (\<lambda>f. if pageNum f = 3 then f\<lparr>dirtyFlag := True\<rparr> else f) (frames demoPool)\<rparr>)"
  using markDirty_spec [OF wf_demoPool, of "\<lparr>ph_pageNum = 3, ph_data = None\<rparr>"] by (simp add: NO_PAGE_def)

text \<open>C6: \<^verbatim>\<open>unpinPage\<close> on a well-formed pool returns \<open>RC_OK\<close> and
  decrements the fix count of exactly the frames holding the handle's page,
  changing nothing else; the decrement is not guarded by a positive count.\<close>

theorem unpinPage_spec:
  assumes "wf_pool bm" "ph_pageNum h \<noteq> NO_PAGE"
  shows "unpinPage bm h = Some (RC_OK, bm\<lparr>frames := map (\<lambda>f. if pageNum f = ph_pageNum h
                                   then f\<lparr>fixCount := fixCount f - 1\<rparr> else f) (frames bm)\<rparr>)"
  using unpinPage_map [OF assms] .

lemma unpinPage_spec_witness:
  "unpinPage demoPool \<lparr>ph_pageNum = 1, ph_data = None\<rparr> =
     Some (RC_OK, demoPool\<lparr>frames := map (\<lambda>f. if pageNum f = 1 then f\<lparr>fixCount := fixCount f - 1\<rparr> else f)
                                        (frames demoPool)\<rparr>)"
  using unpinPage_spec [OF wf_demoPool, of "\<lparr>ph_pageNum = 1, ph_data = None\<rparr>"] by (simp add: NO_PAGE_def)

text \<open>C7: \<^verbatim>\<open>forcePage\<close> writes a dirty resident page back. If frame \<open>i\<close>
  holds the handle's page, is dirty, and the block exists in the file, then
  \<^verbatim>\<open>forcePage\<close> returns \<open>RC_OK\<close>, the block now holds the frame's bytes,
  the frame is clean and one write is counted, whatever the fix count.\<close>

theorem forcePage_writes_back:
  assumes wf: "wf_pool bm" and i: "i < nframes bm" "pageNum (frames bm ! i) = ph_pageNum h"
      "dirtyFlag (frames bm ! i)" and p: "0 \<le> ph_pageNum h" "ph_pageNum h < int (length (pageFile bm))"
  shows "\<exists>bm'. forcePage bm h = Some (RC_OK, bm') \<and>
           readBlock (ph_pageNum h) (pageFile bm') = Inr (data (frames bm ! i)) \<and>
           \<not> dirtyFlag (frames bm' ! i) \<and> numWrite bm' = numWrite bm + 1"
proof -
  have pn: "ph_pageNum h \<noteq> NO_PAGE" using p by (simp add: NO_PAGE_def)
  obtain f' where w: "writeBlock (ph_pageNum h) (data (frames bm ! i)) (pageFile bm) = Inr f'"
    using p by (simp add: writeBlock_def)
  show ?thesis
    using forcePage_dirty [OF wf i pn] writeBlock_readBlock_same [OF w] w i(1) by simp
qed

lemma forcePage_writes_back_witness:
  "\<exists>bm'. forcePage demoPool \<lparr>ph_pageNum = 1, ph_data = None\<rparr> = Some (RC_OK, bm') \<and>
     readBlock 1 (pageFile bm') = Inr [7] \<and> \<not> dirtyFlag (frames bm' ! 0) \<and> numWrite bm' = numWrite demoPool + 1"
  using forcePage_writes_back [OF wf_demoPool, of 0 "\<lparr>ph_pageNum = 1, ph_data = None\<rparr>"]
  by (simp add: demoPool_def file6_def)

text \<open>C8 (the round trip of the specification): when the handle points at
  frame \<open>i\<close> holding page \<open>p\<close> and block \<open>p\<close> exists, writing bytes \<open>d\<close>
  through the handle, \<^verbatim>\<open>markDirty\<close> and \<^verbatim>\<open>forcePage\<close> leave \<open>d\<close> in block
  \<open>p\<close> of the page file, with the frame clean and one write counted.\<close>

theorem write_markDirty_force_roundtrip:
  assumes wf: "wf_pool bm" and h: "ph_data h = Some i" "i < nframes bm" "pageNum (frames bm ! i) = p"
      and p: "0 \<le> p" "p < int (length (pageFile bm))"
  shows "\<exists>bm' h'. bm_run (bm, h) [Write d, MarkDirty p, Force p] = Some (bm', h') \<and>
           readBlock p (pageFile bm') = Inr d \<and> \<not> dirtyFlag (frames bm' ! i) \<and>
           numWrite bm' = numWrite bm + 1"
proof -
  define bm1 where "bm1 = clientWrite bm h d"
  have f1: "frames bm1 = (frames bm)[i := (frames bm ! i)\<lparr>data := d\<rparr>]" and pf1: "pageFile bm1 = pageFile bm"
    and nw1: "numWrite bm1 = numWrite bm"
    using h by (simp_all add: bm1_def clientWrite_def)
  have wf1: "wf_pool bm1" using wf_clientWrite [OF wf] by (simp add: bm1_def)
  have pn: "p \<noteq> NO_PAGE" using p by (simp add: NO_PAGE_def)
  let ?h = "h\<lparr>ph_pageNum := p\<rparr>"
  define bm2 where "bm2 = bm1\<lparr>frames := map (\<lambda>f. if pageNum f = p then f\<lparr>dirtyFlag := True\<rparr> else f) (frames bm1)\<rparr>"
  have m: "markDirty bm1 ?h = Some (RC_OK, bm2)"
    using markDirty_map [OF wf1, of ?h] pn by (simp add: bm2_def)
  have wf2: "wf_pool bm2" unfolding bm2_def by (rule wf_frames_update [OF wf1]) auto
  have i2: "i < nframes bm2" "pageNum (frames bm2 ! i) = p" "dirtyFlag (frames bm2 ! i)"
      "data (frames bm2 ! i) = d"
    using h by (simp_all add: bm2_def f1)
  have w: "writeBlock p d (pageFile bm2) = Inr ((pageFile bm)[nat p := d])"
    using p by (simp add: writeBlock_def bm2_def pf1)
  define bm3 where "bm3 = bm2\<lparr>pageFile := (pageFile bm)[nat p := d], numWrite := numWrite bm2 + 1,
                     frames := (frames bm2)[i := (frames bm2 ! i)\<lparr>dirtyFlag := False\<rparr>]\<rparr>"
  have fp: "forcePage bm2 ?h = Some (RC_OK, bm3)"
    using forcePage_dirty [OF wf2 i2(1), of ?h] i2 pn w by (simp add: bm3_def)
  have "bm_run (bm, h) [Write d, MarkDirty p, Force p] = Some (bm3, h)"
    using m fp by (simp add: bm1_def)
  moreover have "readBlock p (pageFile bm3) = Inr d"
    using writeBlock_readBlock_same [OF w] by (simp add: bm3_def)
  moreover have "\<not> dirtyFlag (frames bm3 ! i) \<and> numWrite bm3 = numWrite bm + 1"
    using i2(1) by (simp add: bm3_def bm2_def nw1)
  ultimately show ?thesis by blast
qed

lemma write_markDirty_force_roundtrip_witness:
  "\<exists>bm' h'. bm_run (demoPool, \<lparr>ph_pageNum = 1, ph_data = Some 0\<rparr>) [Write [42], MarkDirty 1, Force 1] = Some (bm', h') \<and>
     readBlock 1 (pageFile bm') = Inr [42] \<and> \<not> dirtyFlag (frames bm' ! 0) \<and>
     numWrite bm' = numWrite demoPool + 1"
  by (rule write_markDirty_force_roundtrip [OF wf_demoPool]) (simp_all add: demoPool_def file6_def)

text \<open>C9: when \<^verbatim>\<open>forceFlushPool\<close> succeeds, it has written back exactly the
  dirty frames with fix count 0: each such frame's bytes are now in its block
  of the page file, every other block is unchanged, a frame is dirty
  afterwards iff it was dirty and pinned, and fix counts are unchanged.\<close>

theorem forceFlushPool_writes:
  assumes wf: "wf_pool bm" and ok: "forceFlushPool bm = (RC_OK, bm')"
  shows "(\<forall>k < nframes bm. fixCount (frames bm' ! k) = fixCount (frames bm ! k) \<and>
            (dirtyFlag (frames bm' ! k) \<longleftrightarrow> dirtyFlag (frames bm ! k) \<and> fixCount (frames bm ! k) \<noteq> 0)) \<and>
         (\<forall>k < nframes bm. dirtyFlag (frames bm ! k) \<and> fixCount (frames bm ! k) = 0 \<longrightarrow>
            readBlock (pageNum (frames bm ! k)) (pageFile bm') = Inr (data (frames bm ! k))) \<and>
         (\<forall>q. (\<forall>k < nframes bm. dirtyFlag (frames bm ! k) \<and> fixCount (frames bm ! k) = 0 \<longrightarrow> pageNum (frames bm ! k) \<noteq> q) \<longrightarrow>
            readBlock q (pageFile bm') = readBlock q (pageFile bm))"
proof -
  let ?w = "ring_walk (nframes bm) (head bm) (head bm)"
  have w: "distinct ?w" "set ?w = {..<nframes bm}" using forceFlushPool_walk [OF wf] by auto
  have r: "flushFrames ?w bm = (RC_OK, bm')" using ok by (simp add: forceFlushPool_def)
  have dp: "distinct_pages (map pageNum (frames bm))" using wf by (simp add: wf_pool_def)
  have "\<forall>i \<in> set ?w. i < nframes bm" using w(2) by simp
  from flushFrames_OK [OF r this] flushFrames_blocks [OF w(1) this dp] r w(2)
  show ?thesis by simp
qed

lemma forceFlushPool_writes_witness:
  "\<exists>bm'. forceFlushPool (demoPool\<lparr>frames := [(frames demoPool ! 0)\<lparr>fixCount := 0\<rparr>, newFrame]\<rparr>) = (RC_OK, bm') \<and>
     \<not> dirtyFlag (frames bm' ! 0) \<and> readBlock 1 (pageFile bm') = Inr [7] \<and> readBlock 2 (pageFile bm') = Inr [2]"
proof -
  let ?bm = "demoPool\<lparr>frames := [(frames demoPool ! 0)\<lparr>fixCount := 0\<rparr>, newFrame]\<rparr>"
  have wf: "wf_pool ?bm" using wf_demoPool by (simp add: wf_pool_def demoPool_def distinct_pages_def)
  obtain rc bm' where r: "forceFlushPool ?bm = (rc, bm')" by fastforce
  have rc: "rc = RC_OK" using r
    by (simp add: forceFlushPool_def demoPool_def ring_walk_def walk_len_def upt_rec newFrame_def
        writeBlock_def file6_def Let_def)
  note fl = forceFlushPool_writes [OF wf r [unfolded rc]]
  have "\<not> dirtyFlag (frames bm' ! 0)" using fl by (simp add: demoPool_def)
  moreover have "readBlock 1 (pageFile bm') = Inr [7]"
    using conjunct1 [OF conjunct2 [OF fl], rule_format, of 0] by (simp add: demoPool_def)
  moreover have "\<forall>k < nframes ?bm. dirtyFlag (frames ?bm ! k) \<and> fixCount (frames ?bm ! k) = 0 \<longrightarrow>
      pageNum (frames ?bm ! k) \<noteq> 2"
    by (simp add: demoPool_def newFrame_def NO_PAGE_def All_less_Suc numeral_2_eq_2)
  then have "readBlock 2 (pageFile bm') = readBlock 2 (pageFile ?bm)"
    using conjunct2 [OF conjunct2 [OF fl]] by blast
  then have "readBlock 2 (pageFile bm') = Inr [2]"
    by (simp add: readBlock_def demoPool_def file6_def)
  ultimately show ?thesis using r rc by blast
qed

text \<open>C10 (pinning when every frame is pinned): the specification expects an
  error, but for a full FIFO pool whose frames are all pinned,
  \<^verbatim>\<open>pinPage\<close> of a page that is not resident returns \<open>RC_OK\<close>: the
  victim search finds no unpinned frame, block \<open>p\<close> is read into the frame
  at \<^verbatim>\<open>head\<close>, which keeps the label of the page it held and its pins,
  and the handle points at that frame.\<close>

theorem pinPage_all_pinned:
  assumes wf: "wf_pool bm" and fifo: "strategy bm = RS_FIFO" and full: "\<not> occupiedCount bm < numPages bm"
      and pinned: "\<forall>k < nframes bm. fixCount (frames bm ! k) \<noteq> 0"
      and miss: "\<forall>k < nframes bm. pageNum (frames bm ! k) \<noteq> p" and p: "0 \<le> p"
  shows "\<exists>bm'. pinPage bm h p = Some (RC_OK, bm', h\<lparr>ph_pageNum := p, ph_data := Some (head bm)\<rparr>) \<and>
           map pageNum (frames bm') = map pageNum (frames bm) \<and> pageNum (frames bm' ! head bm) \<noteq> p \<and>
           map fixCount (frames bm') = map fixCount (frames bm) \<and>
           readBlock p (pageFile bm') = Inr (data (frames bm' ! head bm))"
proof -
  have n: "0 < nframes bm" "head bm < nframes bm" "tail bm < nframes bm" using wf by (simp_all add: wf_pool_def)
  have f: "findPage bm p = Some (Wrapped (head bm))"
    by (cases rule: findPage_wf [OF wf, of p]) (use miss in auto)
  have v: "ringScan (\<lambda>i. fixCount (frames bm ! i) = 0) (nframes bm) (head bm) (tail bm) = Some (Wrapped (head bm))"
    by (cases rule: victimScan_wf [OF n(1) n(3) n(2), of "\<lambda>i. fixCount (frames bm ! i) = 0"]) (use pinned in auto)
  define d where "d = (if nat p < length (pageFile bm) then pageFile bm ! nat p else emptyPage)"
  have rb: "readBlock p (ensureCapacity (p + 1) (pageFile bm)) = Inr d"
    using readBlock_ensureCapacity [OF p] by (simp add: d_def)
  have "pinPage bm h p = Some (RC_OK, bm\<lparr>pageFile := ensureCapacity (p + 1) (pageFile bm),
           frames := (frames bm)[head bm := (frames bm ! head bm)\<lparr>data := d\<rparr>], numRead := numRead bm + 1\<rparr>,
           h\<lparr>ph_pageNum := p, ph_data := Some (head bm)\<rparr>)"
    using f v full rb by (simp add: pinPage_def fifo pinPageFIFO_def loadPage_def Let_def)
  moreover have "pageNum (frames bm ! head bm) \<noteq> p" using miss n(2) by blast
  ultimately show ?thesis using rb n(2)
    by (simp add: map_update list_update_same_conv)
qed

lemma pinPage_all_pinned_witness:
  "\<exists>bm'. pinPage (demoPool\<lparr>frames := [frames demoPool ! 0, newFrame\<lparr>pageNum := 2, fixCount := 1\<rparr>], occupiedCount := 2\<rparr>)
       noHandle 3 = Some (RC_OK, bm', noHandle\<lparr>ph_pageNum := 3, ph_data := Some 1\<rparr>) \<and>
     map pageNum (frames bm') = [1, 2] \<and> pageNum (frames bm' ! 1) \<noteq> 3 \<and>
     map fixCount (frames bm') = [1, 1] \<and> readBlock 3 (pageFile bm') = Inr (data (frames bm' ! 1))"
proof -
  let ?bm = "demoPool\<lparr>frames := [frames demoPool ! 0, newFrame\<lparr>pageNum := 2, fixCount := 1\<rparr>], occupiedCount := 2\<rparr>"
  have wf: "wf_pool ?bm"
    by (simp add: wf_pool_def demoPool_def distinct_pages_def newFrame_def NO_PAGE_def All_less_Suc numeral_2_eq_2)
  have "\<forall>k < nframes ?bm. fixCount (frames ?bm ! k) \<noteq> 0" "\<forall>k < nframes ?bm. pageNum (frames ?bm ! k) \<noteq> 3"
    by (simp_all add: demoPool_def newFrame_def All_less_Suc numeral_2_eq_2)
  from pinPage_all_pinned [OF wf _ _ this, of noHandle] show ?thesis
    by (simp add: demoPool_def newFrame_def)
qed

text \<open>The same on a concrete run: two frames, pages 1 and 2 pinned, then
  page 3 pinned: frame 0, still labelled page 1 and pinned by its first
  client, now holds the bytes of page 3.\<close>

theorem pool_exhausted_scenario:
  "map_option (\<lambda>(bm, h). (getFrameContents bm, map data (frames bm), h))
     (bm_run (initBufferPool file6 2 RS_FIFO, noHandle) [Pin 1, Pin 2, Pin 3])
     = Some ([1, 2], [[3], [2]], \<lparr>ph_pageNum = 3, ph_data = Some 0\<rparr>) \<and>
   map_option fst (pinPage (fst (the (bm_run (initBufferPool file6 2 RS_FIFO, noHandle) [Pin 1, Pin 2])))
     noHandle 3) = Some RC_OK"
  by (simp add: bm_eval file6_def)

text \<open>The hit search of \<^verbatim>\<open>pinPage\<close>, \<^verbatim>\<open>markDirty\<close> and
  \<^verbatim>\<open>unpinPage\<close> (a \<^verbatim>\<open>do ... while\<close> loop from \<^verbatim>\<open>head\<close> round the ring)
  returns on a well-formed pool, and computes the first frame holding the page
  in ring order from \<^verbatim>\<open>head\<close>, or reports the wrap-around.\<close>

theorem findPage_closed_form:
  assumes "wf_pool bm"
  shows "findPage bm p =
           Some (case List.find (\<lambda>i. pageNum (frames bm ! i) = p)
                        (ring_walk (nframes bm) (head bm) (head bm)) of
                   Some i \<Rightarrow> Found i | None \<Rightarrow> Wrapped (head bm))"
  unfolding findPage_def using assms by (intro ringScan_eq) (simp_all add: wf_pool_def)

lemma findPage_closed_form_witness:
  "findPage demoPool 3 =
     Some (case List.find (\<lambda>i. pageNum (frames demoPool ! i) = 3)
                  (ring_walk (nframes demoPool) (head demoPool) (head demoPool)) of
             Some i \<Rightarrow> Found i | None \<Rightarrow> Wrapped (head demoPool))"
  by (rule findPage_closed_form [OF wf_demoPool])

text \<open>C11: the CLOCK sweep \<^verbatim>\<open>while (frame->refBit != 0)\<close> terminates from
  any frame of the ring: it stops at a frame whose reference bit is clear,
  and it has changed nothing but reference bits.\<close>

theorem clockSweep_terminates:
  assumes "i < length fs"
  shows "\<exists>fs' j. clockSweep fs i = Some (fs', j) \<and> length fs' = length fs \<and> j < length fs \<and>
           \<not> refBit (fs' ! j) \<and> (\<forall>k < length fs. fs' ! k = (fs ! k)\<lparr>refBit := refBit (fs' ! k)\<rparr>)"
  using clockSweep_result [OF assms] by (simp add: sweep_result_def)

lemma clockSweep_terminates_witness:
  "\<exists>fs' j. clockSweep [newFrame\<lparr>refBit := True\<rparr>, newFrame\<lparr>refBit := True\<rparr>] 1 = Some (fs', j) \<and>
     length fs' = 2 \<and> j < 2 \<and> \<not> refBit (fs' ! j) \<and>
     fs' ! 0 = newFrame\<lparr>refBit := refBit (fs' ! 0)\<rparr> \<and> fs' ! 1 = newFrame\<lparr>refBit := refBit (fs' ! 1)\<rparr>"
proof -
  obtain fs' j where r: "clockSweep [newFrame\<lparr>refBit := True\<rparr>, newFrame\<lparr>refBit := True\<rparr>] 1 = Some (fs', j)"
      "length fs' = 2" "j < 2" "\<not> refBit (fs' ! j)"
      "\<forall>k < 2. fs' ! k = ([newFrame\<lparr>refBit := True\<rparr>, newFrame\<lparr>refBit := True\<rparr>] ! k)\<lparr>refBit := refBit (fs' ! k)\<rparr>"
    using clockSweep_terminates [of 1 "[newFrame\<lparr>refBit := True\<rparr>, newFrame\<lparr>refBit := True\<rparr>]"]
    by (auto simp: numeral_2_eq_2)
  have "fs' ! 0 = newFrame\<lparr>refBit := refBit (fs' ! 0)\<rparr>" "fs' ! 1 = newFrame\<lparr>refBit := refBit (fs' ! 1)\<rparr>"
    using r(5) [rule_format, of 0] r(5) [rule_format, of 1] by simp_all
  with r(1-4) show ?thesis by blast
qed

text \<open>LRU hit, then a miss: after page 1 is pinned twice the hit moves
  \<^verbatim>\<open>head\<close> back to frame 0, so the next miss fills frame 0 again: page 2
  replaces page 1, which is still pinned twice, while two frames are empty,
  and the frame's fix count adds up both clients (3).\<close>

theorem lru_hit_then_miss_overwrites:
  "map_option (\<lambda>(bm, h). (getFrameContents bm, getFixCounts bm))
     (bm_run (initBufferPool file6 3 RS_LRU, noHandle) [Pin 1, Pin 1, Pin 2])
     = Some ([2, -1, -1], [3, 0, 0])"
  by (simp add: bm_eval file6_def)

text \<open>CLOCK evicts a pinned page: the sweep does not look at fix
  counts; with page 2 pinned, the sweep stops on its frame and page 5 replaces
  it, the frame now counting the pins of both pages.\<close>

theorem clock_evicts_pinned:
  "map_option (\<lambda>(bm, h). (getFrameContents bm, getFixCounts bm))
     (bm_run (initBufferPool file6 3 RS_CLOCK, noHandle)
       [Pin 1, Pin 2, Pin 3, Unpin 1, Pin 4, Unpin 4, Pin 5])
     = Some ([4, 5, 3], [0, 2, 1])"
  by (simp add: bm_eval file6_def)

text \<open>FIFO victim search stops before \<^verbatim>\<open>head\<close>: the search runs from
  \<^verbatim>\<open>tail\<close> while the pointer differs from \<^verbatim>\<open>head\<close>, so the unpinned frame
  at \<^verbatim>\<open>head\<close> is never examined; the block of page 4 is read into that
  frame anyway, which keeps the label of page 3: frame 0 says page 3 and holds
  the bytes of page 4.\<close>

theorem fifo_search_skips_head:
  "map_option (\<lambda>(bm, h). (getFrameContents bm, getFixCounts bm, data (frames bm ! 0), h))
     (bm_run (initBufferPool file6 2 RS_FIFO, noHandle) [Pin 1, Pin 2, Unpin 1, Pin 3, Unpin 3, Pin 4])
     = Some ([3, 2], [0, 1], [4], \<lparr>ph_pageNum = 4, ph_data = Some 0\<rparr>)"
  by (simp add: bm_eval file6_def)

text \<open>The dirty flag survives eviction: the write-back of a victim does
  not clear its dirty flag, so page 1, never modified, is written back when it
  is evicted: two writes where one is due.\<close>

theorem evicted_dirty_flag_kept:
  "map_option (\<lambda>(bm, h). (getFrameContents bm, getDirtyFlags bm, numWrite bm))
     (bm_run (initBufferPool file6 1 RS_FIFO, noHandle) [Pin 0, MarkDirty 0, Unpin 0, Pin 1, Unpin 1, Pin 2])
     = Some ([2], [True], 2)"
  by (simp add: bm_eval file6_def)

text \<open>C12 (shutdown loses pinned dirty pages): \<^verbatim>\<open>shutdownBufferPool\<close>
  returns \<open>RC_OK\<close> and leaves the block of every pinned resident page as it
  was in the file, whatever the frame holds: the bytes of a dirty pinned
  frame never reach the file.\<close>

theorem shutdown_keeps_pinned_block:
  assumes wf: "wf_pool bm" and k: "k < nframes bm" "fixCount (frames bm ! k) \<noteq> 0"
      "pageNum (frames bm ! k) \<noteq> NO_PAGE"
  shows "fst (shutdownBufferPool bm) = RC_OK \<and>
         readBlock (pageNum (frames bm ! k)) (snd (shutdownBufferPool bm)) =
           readBlock (pageNum (frames bm ! k)) (pageFile bm)"
proof -
  let ?w = "ring_walk (nframes bm) (head bm) (head bm)"
  have w: "distinct ?w" "set ?w = {..<nframes bm}" using forceFlushPool_walk [OF wf] by auto
  have dp: "distinct_pages (map pageNum (frames bm))" using wf by (simp add: wf_pool_def)
  have lt: "\<forall>i \<in> set ?w. i < nframes bm" using w(2) by simp
  have "\<forall>j \<in> set ?w. dirtyFlag (frames bm ! j) \<and> fixCount (frames bm ! j) = 0 \<longrightarrow>
          pageNum (frames bm ! j) \<noteq> pageNum (frames bm ! k)"
    using distinct_pages_nth [OF dp] k lt by (metis length_map)
  with flushFrames_blocks [OF w(1) lt dp] show ?thesis
    by (simp add: shutdownBufferPool_def forceFlushPool_def)
qed

lemma shutdown_keeps_pinned_block_witness:
  "fst (shutdownBufferPool demoPool) = RC_OK \<and> readBlock 1 (snd (shutdownBufferPool demoPool)) = Inr [1] \<and>
   dirtyFlag (frames demoPool ! 0) \<and> data (frames demoPool ! 0) = [7]"
  using shutdown_keeps_pinned_block [OF wf_demoPool, of 0]
  by (simp add: demoPool_def NO_PAGE_def readBlock_def file6_def)


text \<open>The same on a run: the only frame is dirty and still pinned when the
  pool is shut down.\<close>

theorem shutdown_skips_pinned_dirty:
  "map_option (\<lambda>(bm, h). (shutdownBufferPool bm, data (frames bm ! 0)))
     (bm_run (initBufferPool file6 1 RS_FIFO, noHandle) [Pin 0, Write [9], MarkDirty 0])
     = Some ((RC_OK, file6), [9])"
  by (simp add: bm_eval file6_def shutdownBufferPool_def forceFlushPool_def ring_walk_def walk_len_def)

text \<open>fix counts go negative: \<^verbatim>\<open>unpinPage\<close> decrements without a check,
  so a second unpin leaves the fix count at -1.\<close>

theorem unpin_below_zero:
  "map_option (getFixCounts \<circ> fst)
     (bm_run (initBufferPool file6 2 RS_FIFO, noHandle) [Pin 1, Unpin 1, Unpin 1]) = Some [-1, 0]"
  by (simp add: bm_eval file6_def)

text \<open>pinning \<^verbatim>\<open>NO_PAGE\<close>: the hit search compares with the page
  number of empty frames too, so pinning page -1 is a hit on the first empty
  frame: it is pinned, nothing is read, and the handle points at it.\<close>

theorem pin_no_page_hits_empty_frame:
  "pinPage (initBufferPool file6 2 RS_FIFO) noHandle NO_PAGE =
     Some (RC_OK, (initBufferPool file6 2 RS_FIFO)\<lparr>frames := [newFrame\<lparr>fixCount := 1\<rparr>, newFrame]\<rparr>,
           \<lparr>ph_pageNum = NO_PAGE, ph_data = Some 0\<rparr>)"
  by (simp add: bm_eval file6_def)

text \<open>a failed read is reported as success: pinning page -2 claims a
  frame, then \<^verbatim>\<open>readBlock\<close> fails; \<^verbatim>\<open>pinPageFIFO\<close> returns
  \<open>RC_READ_NON_EXISTING_PAGE\<close> with the frame left claimed (page -2, one pin,
  one more occupied frame) and the handle untouched, and \<^verbatim>\<open>pinPage\<close>
  returns \<open>RC_OK\<close> for it.\<close>

theorem read_failure_reported_ok:
  "pinPageFIFO (initBufferPool file6 2 RS_FIFO) noHandle (-2) =
     Some (RC_READ_NON_EXISTING_PAGE,
           (initBufferPool file6 2 RS_FIFO)\<lparr>frames := [newFrame\<lparr>pageNum := -2, fixCount := 1\<rparr>, newFrame],
              head := 1, occupiedCount := 1\<rparr>, noHandle) \<and>
   map_option fst (pinPage (initBufferPool file6 2 RS_FIFO) noHandle (-2)) = Some RC_OK"
  by (simp add: bm_eval file6_def)

text \<open>C13: inserting an int key that \<^verbatim>\<open>findKey\<close> does not find
  returns \<open>RC_OK\<close>, appends the new entry to \<^verbatim>\<open>AllocBTree\<close>, and afterwards
  \<^verbatim>\<open>findKey\<close> returns the record id it was inserted with; the tree's buffer
  pool stays well formed (the pins, dirty marks and unpins on it all return).\<close>
theorem insert_then_find:
  assumes wf: "wf_pool (tbm ti)" and k: "dt key = DT_INT"
      and nf: "findKey st key = Inl RC_IM_KEY_NOT_FOUND"
  shows "\<exists>ti' st'. insertKey ti st fresh key r = Some (RC_OK, ti', st') \<and> findKey st' key = Inr r \<and>
           AllocBTree st' = AllocBTree st @ [the (storeKey fresh key r)] \<and> wf_pool (tbm ti')"
proof -
  have v: "validKey key" using k by (simp add: validKey_def)
  have n: "\<not> list_ex (\<lambda>e. keyEq (kvalue e) key) (AllocBTree st)"
    using nf findKey_not_found [OF v] firstMatch_None by blast
  obtain ti' where ins: "insertKey ti st fresh key r =
      Some (RC_OK, ti', st\<lparr>AllocBTree := AllocBTree st @ [the (storeKey fresh key r)]\<rparr>)" "wf_pool (tbm ti')"
    using insertKey_new [OF wf v n] by blast
  have "firstMatch key (AllocBTree st @ [the (storeKey fresh key r)]) = Some (length (AllocBTree st))"
    using firstMatch_append_new [OF n] storeKey_keyEq [OF k] by simp
  then have "findKey (st\<lparr>AllocBTree := AllocBTree st @ [the (storeKey fresh key r)]\<rparr>) key = Inr r"
    using storeKey_Some [OF v] by (simp add: findKey_def findKeyLoop_valid [OF v])
  with ins show ?thesis by auto
qed

lemma insert_then_find_witness:
  "\<exists>ti' st'. insertKey demoTree \<lparr>AllocBTree = [], scanNextEntry = 0\<rparr> freshEntry (intKey 5) \<lparr>page = 1, slot = 2\<rparr> =
       Some (RC_OK, ti', st') \<and> findKey st' (intKey 5) = Inr \<lparr>page = 1, slot = 2\<rparr> \<and>
     AllocBTree st' = [] @ [the (storeKey freshEntry (intKey 5) \<lparr>page = 1, slot = 2\<rparr>)] \<and> wf_pool (tbm ti')"
  using insert_then_find [OF wf_demoTree, of "intKey 5" "\<lparr>AllocBTree = [], scanNextEntry = 0\<rparr>"]
  by (simp add: intKey_def findKey_def)

text \<open>C14: inserting a key that \<^verbatim>\<open>findKey\<close> finds returns
  \<open>RC_IM_KEY_ALREADY_EXISTS\<close> and changes neither the keys nor the tree's
  pool.\<close>
theorem insert_duplicate_rejected:
  assumes "findKey st key = Inr x"
  shows "insertKey ti st fresh key r = Some (RC_IM_KEY_ALREADY_EXISTS, ti, st)"
  using findKeyLoop_Inr [of key "AllocBTree st" x] assms insertKey_dup by (simp add: findKey_def)

lemma insert_duplicate_rejected_witness:
  "insertKey demoTree \<lparr>AllocBTree = [freshEntry\<lparr>kvalue := intKey 5\<rparr>], scanNextEntry = 0\<rparr> freshEntry (intKey 5) \<lparr>page = 3, slot = 0\<rparr>
     = Some (RC_IM_KEY_ALREADY_EXISTS, demoTree, \<lparr>AllocBTree = [freshEntry\<lparr>kvalue := intKey 5\<rparr>], scanNextEntry = 0\<rparr>)"
  by (rule insert_duplicate_rejected [of _ _ "rid freshEntry"])
     (simp add: findKey_def intKey_def validKey_def keyEq_def)

text \<open>C15: an index of distinct int keys stays one under \<^verbatim>\<open>insertKey\<close>
  of an int key, whatever the branch taken, and the tree's pool stays well
  formed.\<close>
theorem insert_keeps_int_index:
  assumes wf: "wf_pool (tbm ti)" and inv: "int_index st" and k: "dt key = DT_INT"
      and r: "insertKey ti st fresh key r = Some (rc, ti', st')"
  shows "int_index st' \<and> wf_pool (tbm ti')"
proof (cases "list_ex (\<lambda>e. keyEq (kvalue e) key) (AllocBTree st)")
  case True
  then show ?thesis using r wf inv insertKey_dup [OF True] k by (simp add: validKey_def)
next
  case False
  have v: "validKey key" using k by (simp add: validKey_def)
  obtain ti'' where ins: "insertKey ti st fresh key r =
      Some (RC_OK, ti'', st\<lparr>AllocBTree := AllocBTree st @ [the (storeKey fresh key r)]\<rparr>)" "wf_pool (tbm ti'')"
    using insertKey_new [OF wf v False] by blast
  have e: "dt (kvalue (the (storeKey fresh key r))) = DT_INT" "intV (kvalue (the (storeKey fresh key r))) = intV key"
    using k by (simp_all add: storeKey_def)
  have "intV key \<notin> set (map (intV \<circ> kvalue) (AllocBTree st))"
    using firstMatch_int [OF _ k, of "AllocBTree st"] inv False firstMatch_None by (simp add: int_index_def)
  then show ?thesis using ins r inv e by (auto simp: int_index_def)
qed

lemma insert_keeps_int_index_witness:
  "\<exists>rc ti' st'. insertKey demoTree \<lparr>AllocBTree = [freshEntry\<lparr>kvalue := intKey 9\<rparr>, freshEntry\<lparr>kvalue := intKey 2\<rparr>],
       scanNextEntry = 0\<rparr> freshEntry (intKey 5) \<lparr>page = 1, slot = 0\<rparr> = Some (rc, ti', st') \<and>
     int_index st' \<and> wf_pool (tbm ti')"
proof -
  let ?st = "\<lparr>AllocBTree = [freshEntry\<lparr>kvalue := intKey 9\<rparr>, freshEntry\<lparr>kvalue := intKey 2\<rparr>], scanNextEntry = 0\<rparr>"
  have inv: "int_index ?st" by (simp add: int_index_def intKey_def)
  have v: "validKey (intKey 5)" by (simp add: validKey_def intKey_def)
  have n: "\<not> list_ex (\<lambda>e. keyEq (kvalue e) (intKey 5)) (AllocBTree ?st)" by (simp add: keyEq_def intKey_def)
  obtain ti' where ins: "insertKey demoTree ?st freshEntry (intKey 5) \<lparr>page = 1, slot = 0\<rparr> =
      Some (RC_OK, ti', ?st\<lparr>AllocBTree := AllocBTree ?st @ [the (storeKey freshEntry (intKey 5) \<lparr>page = 1, slot = 0\<rparr>)]\<rparr>)"
    using insertKey_new [OF wf_demoTree v n] by blast
  have k: "dt (intKey 5) = DT_INT" by (simp add: intKey_def)
  show ?thesis using insert_keeps_int_index [OF wf_demoTree inv k ins] ins by blast
qed

text \<open>C16: deleting an int key from an index of distinct int keys returns
  \<open>RC_OK\<close>, removes exactly the entry holding it (the others keep their keys
  and record ids, in order), leaves the key not found, and keeps the index one
  of distinct int keys.\<close>
theorem delete_removes:
  assumes wf: "wf_pool (tbm ti)" and inv: "int_index st" and k: "dt key = DT_INT"
      and i: "firstMatch key (AllocBTree st) = Some i"
  shows "\<exists>ti' st'. deleteKey ti st key = Some (RC_OK, ti', st') \<and>
           map intView (AllocBTree st') = take i (map intView (AllocBTree st)) @ drop (Suc i) (map intView (AllocBTree st)) \<and>
           findKey st' key = Inl RC_IM_KEY_NOT_FOUND \<and> int_index st' \<and> wf_pool (tbm ti')"
proof -
  let ?es = "AllocBTree st"
  let ?es' = "take i ?es @ shiftDown (drop i ?es)"
  have v: "validKey key" using k by (simp add: validKey_def)
  obtain ti' where del: "deleteKey ti st key = Some (RC_OK, ti', st\<lparr>AllocBTree := ?es'\<rparr>)" "wf_pool (tbm ti')"
    using deleteKey_found [OF wf v i] by blast
  have im: "i < length ?es" "keyEq (kvalue (?es ! i)) key" using firstMatch_Some [OF i] by simp_all
  have ints: "\<forall>e \<in> set ?es. dt (kvalue e) = DT_INT" using inv by (simp add: int_index_def)
  then have "\<forall>e \<in> set (drop i ?es). dt (kvalue e) = DT_INT" by (meson in_set_dropD)
  then have sd: "map intView (shiftDown (drop i ?es)) = map intView (tl (drop i ?es))"
      "\<forall>e \<in> set (shiftDown (drop i ?es)). dt (kvalue e) = DT_INT"
    using shiftDown_int shiftDown_dt_int by blast+
  have mv: "map intView ?es' = take i (map intView ?es) @ drop (Suc i) (map intView ?es)"
    using sd(1) remove_nth_map [OF im(1), of intView] by simp
  have ints': "\<forall>e \<in> set ?es'. dt (kvalue e) = DT_INT" using ints sd(2) by (auto dest: in_set_takeD)
  have mk: "map (intV \<circ> kvalue) ?es' = take i (map (intV \<circ> kvalue) ?es) @ drop (Suc i) (map (intV \<circ> kvalue) ?es)"
    using mv by (simp add: map_intV_intView take_map drop_map)
  have d: "distinct (map (intV \<circ> kvalue) ?es)" using inv by (simp add: int_index_def)
  have dr: "distinct (take i (map (intV \<circ> kvalue) ?es) @ drop (Suc i) (map (intV \<circ> kvalue) ?es))"
      "map (intV \<circ> kvalue) ?es ! i \<notin> set (take i (map (intV \<circ> kvalue) ?es) @ drop (Suc i) (map (intV \<circ> kvalue) ?es))"
    using distinct_remove_nth [OF d, of i] im(1) by simp_all
  have "distinct (map (intV \<circ> kvalue) ?es')" unfolding mk by (rule dr(1))
  moreover have "intV (kvalue (?es ! i)) \<notin> set (map (intV \<circ> kvalue) ?es')"
    unfolding mk using dr(2) im(1) by simp
  ultimately have "distinct (map (intV \<circ> kvalue) ?es')" "intV (kvalue (?es ! i)) \<notin> set (map (intV \<circ> kvalue) ?es')"
    by blast+
  moreover have "intV (kvalue (?es ! i)) = intV key" using im(2) k by (simp add: keyEq_int)
  ultimately have "int_index (st\<lparr>AllocBTree := ?es'\<rparr>)" "intV key \<notin> set (map (intV \<circ> kvalue) ?es')"
    using ints' by (simp_all add: int_index_def)
  moreover have "findKey (st\<lparr>AllocBTree := ?es'\<rparr>) key = Inl RC_IM_KEY_NOT_FOUND"
    using firstMatch_int [OF ints' k] findKey_not_found [OF v] calculation(2) by simp
  ultimately show ?thesis using del mv by auto
qed

lemma delete_removes_witness:
  "\<exists>ti' st'. deleteKey demoTree \<lparr>AllocBTree = [freshEntry\<lparr>kvalue := intKey 9\<rparr>, freshEntry\<lparr>kvalue := intKey 2\<rparr>],
       scanNextEntry = 0\<rparr> (intKey 9) = Some (RC_OK, ti', st') \<and>
     map intView (AllocBTree st') = take 0 (map intView [freshEntry\<lparr>kvalue := intKey 9\<rparr>, freshEntry\<lparr>kvalue := intKey 2\<rparr>]) @
       drop (Suc 0) (map intView [freshEntry\<lparr>kvalue := intKey 9\<rparr>, freshEntry\<lparr>kvalue := intKey 2\<rparr>]) \<and>
     findKey st' (intKey 9) = Inl RC_IM_KEY_NOT_FOUND \<and> int_index st' \<and> wf_pool (tbm ti')"
  using delete_removes [OF wf_demoTree, of "\<lparr>AllocBTree = [freshEntry\<lparr>kvalue := intKey 9\<rparr>, freshEntry\<lparr>kvalue := intKey 2\<rparr>],
       scanNextEntry = 0\<rparr>" "intKey 9" 0]
  by (simp add: int_index_def intKey_def keyEq_def)

text \<open>C17 (deleting a missing key): \<^verbatim>\<open>deleteKey\<close> of a key that is not in
  the index returns \<open>RC_OK\<close> with nothing changed: the
  \<^verbatim>\<open>RC_IM_KEY_NOT_FOUND\<close> test sits inside the loop, where it never holds.\<close>
theorem delete_missing_ok:
  assumes "validKey key" "findKey st key = Inl RC_IM_KEY_NOT_FOUND"
  shows "deleteKey ti st key = Some (RC_OK, ti, st)"
  using assms deleteKey_absent findKey_not_found by blast

lemma delete_missing_ok_witness:
  "deleteKey demoTree \<lparr>AllocBTree = [freshEntry\<lparr>kvalue := intKey 9\<rparr>], scanNextEntry = 0\<rparr> (intKey 4) =
     Some (RC_OK, demoTree, \<lparr>AllocBTree = [freshEntry\<lparr>kvalue := intKey 9\<rparr>], scanNextEntry = 0\<rparr>)"
  by (rule delete_missing_ok) (simp_all add: validKey_def intKey_def findKey_def keyEq_def)

text \<open>C18: for an index whose first entry has an int key, \<^verbatim>\<open>openTreeScan\<close>
  (a selection sort) permutes the entries so that their int keys are those of
  \<^verbatim>\<open>sort\<close>, leaves the scan cursor alone, and keeps an index of distinct
  int keys one.\<close>
theorem openTreeScan_sorts:
  assumes "AllocBTree st = e # es" "dt (kvalue e) = DT_INT"
  shows "map (intV \<circ> kvalue) (AllocBTree (openTreeScan st)) = sort (map (intV \<circ> kvalue) (AllocBTree st)) \<and>
         mset (AllocBTree (openTreeScan st)) = mset (AllocBTree st) \<and>
         scanNextEntry (openTreeScan st) = scanNextEntry st \<and>
         (int_index st \<longrightarrow> int_index (openTreeScan st))"
proof -
  have o: "AllocBTree (openTreeScan st) = selSort (intV \<circ> kvalue) (AllocBTree st) 0"
    "scanNextEntry (openTreeScan st) = scanNextEntry st"
    using assms by (simp_all add: openTreeScan_def)
  have srt: "map (intV \<circ> kvalue) (AllocBTree (openTreeScan st)) = sort (map (intV \<circ> kvalue) (AllocBTree st))"
    using o selSort_sort by metis
  have ms: "mset (AllocBTree (openTreeScan st)) = mset (AllocBTree st)"
    using o selSort_mset [where i = 0 and es = "AllocBTree st" and f = "intV \<circ> kvalue"] assms(1) by simp
  have "int_index st \<longrightarrow> int_index (openTreeScan st)"
    using srt mset_eq_setD [OF ms] by (simp add: int_index_def)
  with srt ms o show ?thesis by simp
qed

lemma openTreeScan_sorts_witness:
  "map (intV \<circ> kvalue) (AllocBTree (openTreeScan \<lparr>AllocBTree = [freshEntry\<lparr>kvalue := intKey 9\<rparr>, freshEntry\<lparr>kvalue := intKey 2\<rparr>], scanNextEntry = 0\<rparr>)) = [2, 9]"
proof -
  have "map (intV \<circ> kvalue) (AllocBTree (openTreeScan \<lparr>AllocBTree = [freshEntry\<lparr>kvalue := intKey 9\<rparr>, freshEntry\<lparr>kvalue := intKey 2\<rparr>], scanNextEntry = 0\<rparr>)) =
    sort (map (intV \<circ> kvalue) [freshEntry\<lparr>kvalue := intKey 9\<rparr>, freshEntry\<lparr>kvalue := intKey 2\<rparr>])"
    using openTreeScan_sorts [of "\<lparr>AllocBTree = [freshEntry\<lparr>kvalue := intKey 9\<rparr>, freshEntry\<lparr>kvalue := intKey 2\<rparr>], scanNextEntry = 0\<rparr>"
        "freshEntry\<lparr>kvalue := intKey 9\<rparr>" "[freshEntry\<lparr>kvalue := intKey 2\<rparr>]"] by (simp add: intKey_def)
  then show ?thesis by (simp add: intKey_def)
qed

text \<open>C19: a scan loop from cursor 0 with enough rounds receives the record ids
  of all entries in array order and leaves the cursor at \<^verbatim>\<open>numOfKeys\<close>.\<close>
theorem scan_returns_entries:
  assumes "scanNextEntry st = 0"
  shows "scanAll (numOfKeys st + k) st = (map rid (AllocBTree st), st\<lparr>scanNextEntry := int (numOfKeys st)\<rparr>)"
  using scanAll_from [of st 0 k] assms by simp

lemma scan_returns_entries_witness:
  "scanAll (numOfKeys \<lparr>AllocBTree = [freshEntry], scanNextEntry = 0\<rparr> + 1) \<lparr>AllocBTree = [freshEntry], scanNextEntry = 0\<rparr> =
     ([rid freshEntry], \<lparr>AllocBTree = [freshEntry], scanNextEntry = 1\<rparr>)"
  using scan_returns_entries [of "\<lparr>AllocBTree = [freshEntry], scanNextEntry = 0\<rparr>" 1] by simp

text \<open>The scan cursor is never reset: keys 5, 3, 9 are inserted; a scan
  after \<^verbatim>\<open>openTreeScan\<close> returns their record ids in key order, but a second
  \<^verbatim>\<open>openTreeScan\<close> does not reset \<^verbatim>\<open>scanNextEntry\<close>, so the next
  \<^verbatim>\<open>nextEntry\<close> reports \<open>RC_IM_NO_MORE_ENTRIES\<close>.\<close>
theorem scan_cursor_not_reset:
  "map_option (\<lambda>(ti, st).
      (let st1 = openTreeScan st; (rs, st2) = scanAll 4 st1; st3 = openTreeScan st2 in
       (rs, nextEntry st3)))
     (do { (_, ti1, st1) \<leftarrow> insertKey demoTree \<lparr>AllocBTree = [], scanNextEntry = 0\<rparr> freshEntry (intKey 5) \<lparr>page = 1, slot = 0\<rparr>;
           (_, ti2, st2) \<leftarrow> insertKey ti1 st1 freshEntry (intKey 3) \<lparr>page = 1, slot = 1\<rparr>;
           (_, ti3, st3) \<leftarrow> insertKey ti2 st2 freshEntry (intKey 9) \<lparr>page = 2, slot = 0\<rparr>;
           Some (ti3, st3) })
   = Some ([\<lparr>page = 1, slot = 1\<rparr>, \<lparr>page = 1, slot = 0\<rparr>, \<lparr>page = 2, slot = 0\<rparr>], Inl RC_IM_NO_MORE_ENTRIES)"
  by (simp add: bt_eval demoTree_def intKey_def freshEntry_def scanAll_numeral)

text \<open>C20 (the node size is read from the wrong block): whatever \<open>n\<close>
  \<^verbatim>\<open>createBtree\<close> is given, \<^verbatim>\<open>openBtree\<close> on the file it created reads
  \<^verbatim>\<open>maxNumOfKeysPerNode\<close> from block 1, a fresh zero block, and gets 0.\<close>
theorem openBtree_reads_block1:
  "map_option maxNumOfKeysPerNode (openBtree (fst (snd (createBtree n phbuf))) noHandle) = Some 0"
  by (simp add: bt_eval)

text \<open>C21: \<^verbatim>\<open>createBtree\<close> does store \<open>n\<close> in block 0: the first four
  bytes of that block, read back as a little-endian 32-bit int, give \<open>n\<close> for
  every \<open>n\<close> in the range of a C \<^verbatim>\<open>int\<close>.\<close>
theorem createBtree_stores_n:
  assumes "- (2 ^ 31) \<le> n" "n < 2 ^ 31"
  shows "\<exists>b. readBlock 0 (fst (snd (createBtree n phbuf))) = Inr b \<and> le_int32 b = n"
  using readBlock_createBtree le_int32_int_bytes [OF assms] by blast

lemma createBtree_stores_n_witness:
  "\<exists>b. readBlock 0 (fst (snd (createBtree 3 (replicate 8 0)))) = Inr b \<and> le_int32 b = 3"
  by (rule createBtree_stores_n) simp_all

text \<open>\<^verbatim>\<open>getNumNodes\<close> miscounts: the count of same-page pairs starts
  from the uninitialised \<^verbatim>\<open>samePageEntry\<close>, and counts every pair; three
  keys on one page give 0 nodes when the stack happens to hold 0, and -5 when
  it holds 5.\<close>
theorem getNumNodes_miscounts:
  "getNumNodes \<lparr>AllocBTree = [freshEntry, freshEntry, freshEntry], scanNextEntry = 0\<rparr> 0 = 0 \<and>
   getNumNodes \<lparr>AllocBTree = [freshEntry, freshEntry, freshEntry], scanNextEntry = 0\<rparr> 5 = -5"
  by (simp add: getNumNodes_def upt_rec)

text \<open>C22: \<^verbatim>\<open>printTree\<close> writes, for every tree, the text of its closed
  form \<open>printTreeRef\<close>: \<^verbatim>\<open>1,\<close> followed by the key and node number of
  each entry at an even index from 2 on, then one line per index 0 or odd, the
  line at an odd index \<open>i\<close> holding entries \<open>i - 1\<close> and \<open>i\<close>. So entry 0
  is written twice, and with an odd number of at least three keys the last
  entry never appears in \<^verbatim>\<open>TREE\<close>.\<close>

theorem printTree_ref: "printTree idxId st = printTreeRef idxId st"
  using printFold [of "numOfKeys st" "AllocBTree st"]
  by (simp add: printTree_def printTreeRef_def Let_def)

lemma printTree_three_keys:
  "printTree idxId \<lparr>AllocBTree = [\<lparr>kvalue = intKey 5, rid = \<lparr>page = 1, slot = 0\<rparr>\<rparr>,
     \<lparr>kvalue = intKey 3, rid = \<lparr>page = 1, slot = 1\<rparr>\<rparr>, \<lparr>kvalue = intKey 9, rid = \<lparr>page = 2, slot = 0\<rparr>\<rparr>],
     scanNextEntry = 0\<rparr> =
   (idxId, lit ''1,9,2,'' @ [10] @ lit ''1.0, 5,1.0, 5,1.1, 3,'' @ [10])"
  by (simp add: printTree_def printStep_def entryText_def sprintfInt_def intKey_def upt_rec)

end
